theory Spec2Isabelle
  imports Main "HOL-Library.Sublist" "HOL-Library.AList" "HOL-Library.Char_ord"
    "HOL-Library.List_Lexorder"
begin

section \<open>Python string primitives\<close>

text \<open>
  Python \<open>str\<close> values are modelled as \<open>string\<close>, one \<open>char\<close> for each code point;
  the text handled by the service (object keys, log lines, script sources) is taken to be
  ASCII, where \<open>lower\<close>, \<open>upper\<close>, \<open>strip\<close> and the regular expression classes
  \<open>\d\<close> and \<open>\w\<close> act as defined here.
\<close>

definition newline :: char where
  "newline = CHR 0x0A"

definition is_upper :: "char \<Rightarrow> bool" where
  "is_upper c = (65 \<le> (of_char c :: nat) \<and> (of_char c :: nat) \<le> 90)"

definition is_lower :: "char \<Rightarrow> bool" where
  "is_lower c = (97 \<le> (of_char c :: nat) \<and> (of_char c :: nat) \<le> 122)"

definition is_digit :: "char \<Rightarrow> bool" where
  "is_digit c = (48 \<le> (of_char c :: nat) \<and> (of_char c :: nat) \<le> 57)"

text \<open>The characters below 256 that \<open>str.isspace\<close> accepts, which \<open>str.strip\<close> removes.\<close>

definition is_space :: "char \<Rightarrow> bool" where
  "is_space c =
     (let n = (of_char c :: nat)
      in (9 \<le> n \<and> n \<le> 13) \<or> (28 \<le> n \<and> n \<le> 32) \<or> n = 133 \<or> n = 160)"

definition lower_char :: "char \<Rightarrow> char" where
  "lower_char c = (if is_upper c then char_of ((of_char c :: nat) + 32) else c)"

definition upper_char :: "char \<Rightarrow> char" where
  "upper_char c = (if is_lower c then char_of ((of_char c :: nat) - 32) else c)"

definition lower :: "string \<Rightarrow> string" where
  "lower s = map lower_char s"

definition upper :: "string \<Rightarrow> string" where
  "upper s = map upper_char s"

definition strip :: "string \<Rightarrow> string" where
  "strip s = rev (dropWhile is_space (rev (dropWhile is_space s)))"

text \<open>\<open>contains s sub\<close> is Python's \<open>sub in s\<close>.\<close>

fun contains :: "string \<Rightarrow> string \<Rightarrow> bool" where
  "contains [] sub = (sub = [])"
| "contains (c # cs) sub = (prefix sub (c # cs) \<or> contains cs sub)"

text \<open>\<open>split_on sep s\<close> is \<open>s.split(sep)\<close> for a one-character separator.\<close>

fun split_on :: "char \<Rightarrow> string \<Rightarrow> string list" where
  "split_on sep [] = [[]]"
| "split_on sep (c # cs) =
     (if c = sep then [] # split_on sep cs
      else (case split_on sep cs of [] \<Rightarrow> [[c]] | l # ls \<Rightarrow> (c # l) # ls))"

text \<open>\<open>join sep xs\<close> is \<open>sep.join(xs)\<close>.\<close>

fun join :: "string \<Rightarrow> string list \<Rightarrow> string" where
  "join sep [] = []"
| "join sep [x] = x"
| "join sep (x # y # ys) = x @ sep @ join sep (y # ys)"

section \<open>ErrorAnalyzer: \<open>S3Service._parse_log_content\<close>\<close>

record error_info =
  error_type :: string
  error_details :: string
  stack_trace :: string
  missing_modules :: "string list"
  syntax_errors :: "string list"
  runtime_errors :: "string list"

definition initial_error_info :: error_info where
  "initial_error_info =
     \<lparr>error_type = ''unknown'', error_details = '''', stack_trace = '''',
      missing_modules = [], syntax_errors = [], runtime_errors = []\<rparr>"

text \<open>The branch of the \<open>if\<close>/\<open>elif\<close> chain that a line takes, tested on the lower-cased line
  in the order of the source.\<close>

datatype branch =
  ImportBranch | GuiBranch | SyntaxBranch | AttributeBranch | RuntimeBranch
  | FreecadBranch | TracebackBranch | NoBranch

definition branch_of :: "string \<Rightarrow> branch" where
  "branch_of line =
     (let line_lower = lower line in
      if contains line_lower ''importerror'' \<or> contains line_lower ''modulenotfounderror''
        then ImportBranch
      else if contains line_lower ''importgui'' \<or> contains line_lower ''gui''
        then GuiBranch
      else if contains line_lower ''syntaxerror'' then SyntaxBranch
      else if contains line_lower ''attributeerror'' then AttributeBranch
      else if contains line_lower ''error:'' \<or> contains line_lower ''exception:''
        then RuntimeBranch
      else if contains line_lower ''freecad'' \<and>
              (contains line_lower ''error'' \<or> contains line_lower ''exception'')
        then FreecadBranch
      else if contains line_lower ''traceback'' then TracebackBranch
      else NoBranch)"

text \<open>The module name appended by the import branch, if any.\<close>

definition import_module :: "string \<Rightarrow> string list" where
  "import_module line =
     (let line_lower = lower line in
      if contains line_lower ''cadquery'' then [''cadquery'']
      else if contains line_lower ''cq'' then [''cadquery'']
      else if contains line_lower ''importgui'' then [''importgui'']
      else [])"

text \<open>The stack trace taken at line \<open>i\<close>: the lines \<open>i, ..., min (i + 10, len) - 1\<close> up to
  the first blank one, joined by newlines.\<close>

definition stack_lines :: "string list \<Rightarrow> nat \<Rightarrow> string list" where
  "stack_lines lines i = takeWhile (\<lambda>l. strip l \<noteq> []) (take 10 (drop i lines))"

definition parse_line :: "string list \<Rightarrow> nat \<Rightarrow> string \<Rightarrow> error_info \<Rightarrow> error_info" where
  "parse_line lines i line info =
     (case branch_of line of
        ImportBranch \<Rightarrow>
          info\<lparr>error_type := ''import_error'', error_details := strip line,
               missing_modules := missing_modules info @ import_module line\<rparr>
      | GuiBranch \<Rightarrow>
          info\<lparr>error_type := ''gui_error'', error_details := strip line,
               missing_modules := missing_modules info @ [''importgui'']\<rparr>
      | SyntaxBranch \<Rightarrow>
          info\<lparr>error_type := ''syntax_error'',
               syntax_errors := syntax_errors info @ [strip line]\<rparr>
      | AttributeBranch \<Rightarrow>
          info\<lparr>error_type := ''attribute_error'',
               runtime_errors := runtime_errors info @ [strip line]\<rparr>
      | RuntimeBranch \<Rightarrow>
          info\<lparr>runtime_errors := runtime_errors info @ [strip line]\<rparr>
      | FreecadBranch \<Rightarrow>
          info\<lparr>error_type := ''freecad_error'',
               runtime_errors := runtime_errors info @ [strip line]\<rparr>
      | TracebackBranch \<Rightarrow>
          info\<lparr>stack_trace := join [newline] (stack_lines lines i)\<rparr>
      | NoBranch \<Rightarrow> info)"

text \<open>The loop \<open>for i, line in enumerate(lines)\<close>.\<close>

fun parse_loop :: "string list \<Rightarrow> nat \<Rightarrow> string list \<Rightarrow> error_info \<Rightarrow> error_info" where
  "parse_loop lines i [] info = info"
| "parse_loop lines i (line # rest) info =
     parse_loop lines (Suc i) rest (parse_line lines i line info)"

definition parse_log_content :: "string \<Rightarrow> error_info" where
  "parse_log_content log_content =
     (let lines = split_on newline log_content
      in parse_loop lines 0 lines initial_error_info)"

text \<open>
  What one line contributes, read off the branches of \<open>parse_line\<close>: the value a branch
  assigns to \<open>error_type\<close> and to \<open>error_details\<close>, if it assigns one, and what it appends
  to the three lists.
\<close>

definition assigned_type :: "branch \<Rightarrow> string option" where
  "assigned_type b =
     (case b of ImportBranch \<Rightarrow> Some ''import_error'' | GuiBranch \<Rightarrow> Some ''gui_error''
      | SyntaxBranch \<Rightarrow> Some ''syntax_error'' | AttributeBranch \<Rightarrow> Some ''attribute_error''
      | FreecadBranch \<Rightarrow> Some ''freecad_error'' | _ \<Rightarrow> None)"

definition assigned_details :: "string \<Rightarrow> string option" where
  "assigned_details line =
     (case branch_of line of ImportBranch \<Rightarrow> Some (strip line) | GuiBranch \<Rightarrow> Some (strip line)
      | _ \<Rightarrow> None)"

definition line_modules :: "string \<Rightarrow> string list" where
  "line_modules line =
     (case branch_of line of ImportBranch \<Rightarrow> import_module line
      | GuiBranch \<Rightarrow> [''importgui''] | _ \<Rightarrow> [])"

definition line_syntax_errors :: "string \<Rightarrow> string list" where
  "line_syntax_errors line = (if branch_of line = SyntaxBranch then [strip line] else [])"

definition line_runtime_errors :: "string \<Rightarrow> string list" where
  "line_runtime_errors line =
     (if branch_of line \<in> {AttributeBranch, RuntimeBranch, FreecadBranch} then [strip line]
      else [])"

section \<open>Decimal numerals\<close>

definition digit_char :: "nat \<Rightarrow> char" where
  "digit_char d = char_of (48 + d)"

definition digit_val :: "char \<Rightarrow> nat" where
  "digit_val c = of_char c - 48"

text \<open>\<open>str(n)\<close> for a natural number and for an integer.\<close>

fun str_nat :: "nat \<Rightarrow> string" where
  "str_nat n = (if n < 10 then [digit_char n] else str_nat (n div 10) @ [digit_char (n mod 10)])"

declare str_nat.simps [simp del]

definition str_int :: "int \<Rightarrow> string" where
  "str_int i = (if i < 0 then CHR ''-'' # str_nat (nat (- i)) else str_nat (nat i))"

text \<open>\<open>int(ds)\<close> for a string of decimal digits.\<close>

definition int_of_digits :: "string \<Rightarrow> nat" where
  "int_of_digits ds = foldl (\<lambda>n c. 10 * n + digit_val c) 0 ds"

section \<open>Regular expressions of the service\<close>

text \<open>\<open>\w\<close> on ASCII text.\<close>

definition is_word :: "char \<Rightarrow> bool" where
  "is_word c = (is_digit c \<or> is_upper c \<or> is_lower c \<or> c = CHR ''_'')"

text \<open>\<open>pattern.search(s)\<close>: the leftmost position at which the pattern matches, for a
  pattern given by its matcher at a position (the matcher returns the captured group).\<close>

fun re_search :: "(string \<Rightarrow> 'a option) \<Rightarrow> string \<Rightarrow> 'a option" where
  "re_search m [] = m []"
| "re_search m (c # cs) = (case m (c # cs) of Some g \<Rightarrow> Some g | None \<Rightarrow> re_search m cs)"

text \<open>
  \<open>rf"{re.escape(project_name)}_v(\d+)\.py$"\<close> at a position: the project name, \<open>_v\<close>, the
  whole run of digits (a shorter run is followed by a digit, not by the dot), \<open>.py\<close>, and
  the end of the string, which \<open>$\<close> also accepts before one final newline.
\<close>

definition match_script_version :: "string \<Rightarrow> string \<Rightarrow> string option" where
  "match_script_version project_name s =
     (if prefix (project_name @ ''_v'') s then
        (let r = drop (length project_name + 2) s;
             ds = takeWhile is_digit r;
             rest = dropWhile is_digit r
         in if ds \<noteq> [] \<and> (rest = ''.py'' \<or> rest = ''.py'' @ [newline]) then Some ds else None)
      else None)"

text \<open>\<open>r'/v(\d+)/'\<close> at a position.\<close>

definition match_path_version :: "string \<Rightarrow> string option" where
  "match_path_version s =
     (if prefix ''/v'' s then
        (let r = drop 2 s; ds = takeWhile is_digit r
         in if ds \<noteq> [] \<and> prefix ''/'' (dropWhile is_digit r) then Some ds else None)
      else None)"

text \<open>
  One attempt of \<open>\b\d+\.?\d*\b\<close> at a position that starts with a digit and has a word
  boundary before it: the matched text and what follows it. The greedy \<open>\d+\<close> takes the
  whole run of digits; giving digits back never helps, since the position after a shorter
  run lies between two digits. Behind the run, the dot is taken when the match can end
  behind the digits that follow it, or right behind the dot (before a word character).
\<close>

definition match_number :: "string \<Rightarrow> (string \<times> string) option" where
  "match_number s =
     (let d1 = takeWhile is_digit s; r1 = dropWhile is_digit s in
      if d1 = [] then None
      else case r1 of
        [] \<Rightarrow> Some (d1, [])
      | c # r2 \<Rightarrow>
          if c = CHR ''.'' then
            (let d2 = takeWhile is_digit r2; r3 = dropWhile is_digit r2 in
             case r3 of
               [] \<Rightarrow> if d2 \<noteq> [] then Some (d1 @ [c] @ d2, r3) else Some (d1, r1)
             | x # _ \<Rightarrow>
                 if is_word x then Some (d1 @ [c], r2)
                 else if d2 \<noteq> [] then Some (d1 @ [c] @ d2, r3)
                 else Some (d1, r1))
          else if is_word c then None
          else Some (d1, r1))"

text \<open>\<open>re.findall(r'\b\d+\.?\d*\b', code)\<close>, scanning from the left; \<open>prev_word\<close> tells
  whether the character before the position is a word character.\<close>

function findall_numbers_from :: "bool \<Rightarrow> string \<Rightarrow> string list" where
  "findall_numbers_from prev_word [] = []"
| "findall_numbers_from prev_word (c # cs) =
     (if is_digit c \<and> \<not> prev_word then
        (case match_number (c # cs) of
           Some (m, rest) \<Rightarrow> m # findall_numbers_from (is_word (last m)) rest
         | None \<Rightarrow> findall_numbers_from (is_word c) cs)
      else findall_numbers_from (is_word c) cs)"
  by pat_completeness auto
termination
proof (relation "measure (\<lambda>(p, s). length s)")
  fix prev_word :: bool and c :: char and cs :: string and x2 :: "string \<times> string"
    and m rest
  assume "is_digit c \<and> \<not> prev_word"
    and some: "match_number (c # cs) = Some x2" and x2: "(m, rest) = x2"
  define r1 where "r1 = dropWhile is_digit (c # cs)"
  have le: "length (dropWhile is_digit xs) \<le> length xs" for xs
    by (rule length_dropWhile_le)
  have mt: "match_number (c # cs) = Some (m, rest)"
    using some x2 by simp
  then have d1: "takeWhile is_digit (c # cs) \<noteq> []"
    unfolding match_number_def Let_def by (auto split: if_splits)
  then have r1: "length r1 < length (c # cs)"
    unfolding r1_def by (auto simp: less_Suc_eq_le length_dropWhile_le split: if_splits)
  have "length rest < length (c # cs)"
  proof (cases r1)
    case Nil
    then show ?thesis
      using mt d1 r1 unfolding match_number_def Let_def r1_def[symmetric] by auto
  next
    case (Cons d r2)
    have "length r2 < length (c # cs)"
      using r1 Cons by simp
    moreover have "length (dropWhile is_digit r2) < length (c # cs)"
      using le[of r2] r1 Cons by simp
    moreover have "rest = r1 \<or> rest = r2 \<or> rest = dropWhile is_digit r2"
      using mt d1 Cons unfolding match_number_def Let_def r1_def[symmetric]
      by (auto split: if_splits list.splits)
    ultimately show ?thesis
      using r1 by auto
  qed
  then show "((is_word (last m), rest), prev_word, c # cs) \<in> measure (\<lambda>(p, s). length s)"
    by simp
qed auto

definition findall_numbers :: "string \<Rightarrow> string list" where
  "findall_numbers code = findall_numbers_from False code"

section \<open>AutoFixEngine: the rule-based fallback\<close>

text \<open>
  A dimension is either one of the integer defaults of the source or \<open>float(tok)\<close> for a
  matched literal \<open>tok\<close>. An f-string prints an integer with \<open>str\<close> and a float with
  Python's float formatting, which is a parameter \<open>float_repr\<close> of the model
  (\<open>float_repr tok\<close> stands for \<open>str(float(tok))\<close>).
\<close>

datatype pynum = PyInt int | PyFloat string

definition str_pynum :: "(string \<Rightarrow> string) \<Rightarrow> pynum \<Rightarrow> string" where
  "str_pynum float_repr x = (case x of PyInt n \<Rightarrow> str_int n | PyFloat tok \<Rightarrow> float_repr tok)"

text \<open>Python's float formatting on a literal of at most 15 digits: the integer, then \<open>.0\<close>.\<close>

definition float_repr_digits :: "string \<Rightarrow> string" where
  "float_repr_digits tok = str_nat (int_of_digits tok) @ ''.0''"

definition extract_dimensions_from_code :: "string \<Rightarrow> pynum list" where
  "extract_dimensions_from_code code =
     (let numbers = findall_numbers code in
      if length numbers \<ge> 3
      then [PyFloat (numbers ! 0), PyFloat (numbers ! 1), PyFloat (numbers ! 2)]
      else [PyInt 10, PyInt 10, PyInt 10])"

text \<open>The export block that the three templates share, for the object named \<open>obj\<close>.\<close>

definition export_lines :: "string \<Rightarrow> string list" where
  \<open>export_lines obj =
     [''# Multi-format export (HEADLESS)'',
      ''output_dir = os.environ.get("FREECAD_OUTPUT", "/tmp")'',
      ''base_name = "MyHeadlessModel"'',
      '''',
      ''try:'',
      ''    # Save FreeCAD document'',
      ''    fcstd_path = os.path.join(output_dir, f"{base_name}.fcstd")'',
      ''    doc.saveAs(fcstd_path)'',
      ''    '',
      ''    # Export STL mesh'',
      ''    stl_path = os.path.join(output_dir, f"{base_name}.stl")'',
      ''    Mesh.export(['' @ obj @ ''], stl_path)'',
      ''    '',
      ''    # Export OBJ mesh'',
      ''    obj_path = os.path.join(output_dir, f"{base_name}.obj")'',
      ''    Mesh.export(['' @ obj @ ''], obj_path)'',
      ''    '',
      ''    # Export STEP'',
      ''    step_path = os.path.join(output_dir, f"{base_name}.step")'',
      ''    Part.export(['' @ obj @ ''], step_path)'',
      ''    '',
      ''    # Export IGES'',
      ''    iges_path = os.path.join(output_dir, f"{base_name}.iges")'',
      ''    Part.export(['' @ obj @ ''], iges_path)'',
      ''    '',
      ''except Exception as e:'',
      ''    print(f"Export error: {e}")'']\<close>

definition freecad_box_script :: "string \<Rightarrow> string \<Rightarrow> string \<Rightarrow> string" where
  \<open>freecad_box_script w h d =
     join [newline]
     ([''import FreeCAD, Part, Mesh'',
      ''import os'',
      '''',
      ''doc = FreeCAD.newDocument("MyDoc")'',
      ''cube = doc.addObject("Part::Box", "Cube")'',
      ''cube.Length = '' @ w,
      ''cube.Width = '' @ h,
      ''cube.Height = '' @ d,
      ''doc.recompute()'',
      ''''] @ export_lines ''cube'')\<close>

definition freecad_cylinder_script :: "string \<Rightarrow> string \<Rightarrow> string" where
  \<open>freecad_cylinder_script r h =
     join [newline]
     ([''import FreeCAD, Part, Mesh'',
      ''import os'',
      '''',
      ''doc = FreeCAD.newDocument("MyDoc")'',
      ''cylinder = doc.addObject("Part::Cylinder", "Cylinder")'',
      ''cylinder.Radius = '' @ r,
      ''cylinder.Height = '' @ h,
      ''doc.recompute()'',
      ''''] @ export_lines ''cylinder'')\<close>

definition freecad_sphere_script :: "string \<Rightarrow> string" where
  \<open>freecad_sphere_script r =
     join [newline]
     ([''import FreeCAD, Part, Mesh'',
      ''import os'',
      '''',
      ''doc = FreeCAD.newDocument("MyDoc")'',
      ''sphere = doc.addObject("Part::Sphere", "Sphere")'',
      ''sphere.Radius = '' @ r,
      ''doc.recompute()'',
      ''''] @ export_lines ''sphere'')\<close>

definition generate_freecad_box :: "(string \<Rightarrow> string) \<Rightarrow> pynum list \<Rightarrow> string" where
  "generate_freecad_box float_repr dimensions =
     (let xs = (if length dimensions \<ge> 3 then take 3 dimensions
                else [PyInt 10, PyInt 10, PyInt 10])
      in freecad_box_script (str_pynum float_repr (xs ! 0)) (str_pynum float_repr (xs ! 1))
           (str_pynum float_repr (xs ! 2)))"

definition generate_freecad_cylinder :: "(string \<Rightarrow> string) \<Rightarrow> pynum list \<Rightarrow> string" where
  "generate_freecad_cylinder float_repr dimensions =
     (let xs = (if length dimensions \<ge> 2 then take 2 dimensions else [PyInt 5, PyInt 10])
      in freecad_cylinder_script (str_pynum float_repr (xs ! 0))
           (str_pynum float_repr (xs ! 1)))"

definition generate_freecad_sphere :: "(string \<Rightarrow> string) \<Rightarrow> pynum list \<Rightarrow> string" where
  "generate_freecad_sphere float_repr dimensions =
     (let r = (if length dimensions \<ge> 1 then dimensions ! 0 else PyInt 5)
      in freecad_sphere_script (str_pynum float_repr r))"

definition generate_freecad_replacement ::
  "(string \<Rightarrow> string) \<Rightarrow> string \<Rightarrow> string \<Rightarrow> string" where
  "generate_freecad_replacement float_repr original_code error_message =
     (if contains (lower error_message) ''cadquery'' \<or> contains (lower error_message) ''cq''
      then
        (let dimensions = extract_dimensions_from_code original_code in
         if contains original_code ''.box('' \<or> contains (lower original_code) ''box''
           then generate_freecad_box float_repr dimensions
         else if contains original_code ''.cylinder('' \<or>
                 contains (lower original_code) ''cylinder''
           then generate_freecad_cylinder float_repr dimensions
         else if contains original_code ''.sphere('' \<or>
                 contains (lower original_code) ''sphere''
           then generate_freecad_sphere float_repr dimensions
         else generate_freecad_box float_repr [PyInt 10, PyInt 10, PyInt 10])
      else generate_freecad_box float_repr [PyInt 10, PyInt 10, PyInt 10])"

text \<open>An exception is \<open>ClientError\<close> or any other exception; the handlers of the source tell
  only these two apart.\<close>

datatype exn = ClientError | OtherError

text \<open>
  \<open>_generate_ai_fixed_script\<close>, given the outcome \<open>answer\<close> of the text-generation
  collaborator (\<open>ai_service.generate_code_fix\<close>: an exception, \<open>None\<close> or a text) in place
  of the prompt that is sent to it.
\<close>

definition generate_ai_fixed_script ::
  "(string \<Rightarrow> string) \<Rightarrow> exn + string option \<Rightarrow> string \<Rightarrow> string option \<Rightarrow> string" where
  "generate_ai_fixed_script float_repr answer original_code error_message =
     (let message = (case error_message of
                       None \<Rightarrow> ''AI fix failed''
                     | Some m \<Rightarrow> if m = [] then ''AI fix failed'' else m);
          fallback = generate_freecad_replacement float_repr original_code message
      in case answer of
           Inl e \<Rightarrow> fallback
         | Inr None \<Rightarrow> fallback
         | Inr (Some fixed_code) \<Rightarrow>
             if fixed_code \<noteq> [] \<and> contains fixed_code ''import FreeCAD'' then fixed_code
             else fallback)"

section \<open>The object store\<close>

text \<open>
  A JSON value as the service writes it, and a JSON object as an association list (the keys
  in insertion order, as in a Python \<open>dict\<close>).
\<close>

datatype jval = JStr string | JInt int | JNull

type_synonym dict = "(string \<times> jval) list"

text \<open>
  The body of a stored object: \<open>Json d\<close> is a body that \<open>json.loads\<close> reads as the object
  \<open>d\<close> (the text \<open>json.dumps(d, indent=2)\<close>); \<open>Text t\<close> is any other body, on which
  \<open>json.loads\<close> raises. User metadata of objects, sizes and modification times are not
  modelled.
\<close>

datatype body = Text string | Json dict

definition json_loads :: "body \<Rightarrow> dict option" where
  "json_loads b = (case b of Json d \<Rightarrow> Some d | Text t \<Rightarrow> None)"

definition hex_digit :: "nat \<Rightarrow> char" where
  "hex_digit d = (if d < 10 then char_of (48 + d) else char_of (87 + d))"

definition json_escape :: "char \<Rightarrow> string" where
  "json_escape c =
     (let n = (of_char c :: nat) in
      if n = 34 then [CHR 0x5C, CHR 0x22]
      else if n = 92 then [CHR 0x5C, CHR 0x5C]
      else if n = 8 then [CHR 0x5C, CHR ''b'']
      else if n = 12 then [CHR 0x5C, CHR ''f'']
      else if n = 10 then [CHR 0x5C, CHR ''n'']
      else if n = 13 then [CHR 0x5C, CHR ''r'']
      else if n = 9 then [CHR 0x5C, CHR ''t'']
      else if 32 \<le> n \<and> n \<le> 126 then [c]
      else [CHR 0x5C, CHR ''u'', CHR ''0'', CHR ''0'', hex_digit (n div 16), hex_digit (n mod 16)])"

definition json_string :: "string \<Rightarrow> string" where
  "json_string t = [CHR 0x22] @ concat (map json_escape t) @ [CHR 0x22]"

definition json_value :: "jval \<Rightarrow> string" where
  "json_value v = (case v of JStr t \<Rightarrow> json_string t | JInt n \<Rightarrow> str_int n | JNull \<Rightarrow> ''null'')"

text \<open>\<open>json.dumps(d, indent=2)\<close>.\<close>

definition json_dumps :: "dict \<Rightarrow> string" where
  "json_dumps d =
     (if d = [] then ''{}''
      else ''{'' @ [newline] @
           join ('','' @ [newline])
             (map (\<lambda>(k, v). ''  '' @ json_string k @ '': '' @ json_value v) d) @
           [newline] @ ''}'')"

text \<open>\<open>response['Body'].read().decode('utf-8')\<close>.\<close>

definition body_text :: "body \<Rightarrow> string" where
  "body_text b = (case b of Text t \<Rightarrow> t | Json d \<Rightarrow> json_dumps d)"

text \<open>
  The service with the bucket it talks to. \<open>s3_client\<close> tells whether the client was
  initialised, \<open>objects\<close> is the content of the bucket, and \<open>fault c\<close> is the exception
  that the store raises on a call of kind \<open>c\<close>, if it does.
\<close>

datatype call = ListObjectsV2 | GetObject | PutObject | DeleteObject | DeleteObjects

record s3_service =
  s3_client :: bool
  aws_bucket_name :: string
  objects :: "(string \<times> body) list"
  fault :: "call \<Rightarrow> exn option"

text \<open>
  \<open>list_objects_v2\<close>, as the source calls it (one request, no continuation): the store
  answers with the keys under the prefix in key order, and with at most \<open>max_keys\<close> of
  them, the page size of the store. The result is the list of keys of the response, or
  \<open>None\<close> when the response has no \<open>Contents\<close>.
\<close>

definition max_keys :: nat where
  "max_keys = 1000"

definition list_objects_v2 :: "s3_service \<Rightarrow> string \<Rightarrow> exn + string list option" where
  "list_objects_v2 s pre =
     (case fault s ListObjectsV2 of
        Some e \<Rightarrow> Inl e
      | None \<Rightarrow>
          (let keys = take max_keys (sort (remdups (filter (prefix pre) (map fst (objects s)))))
           in Inr (if keys = [] then None else Some keys)))"

text \<open>\<open>get_object\<close>: a missing key raises \<open>ClientError\<close> (\<open>NoSuchKey\<close>).\<close>

definition get_object :: "s3_service \<Rightarrow> string \<Rightarrow> exn + body" where
  "get_object s k =
     (case fault s GetObject of
        Some e \<Rightarrow> Inl e
      | None \<Rightarrow> (case map_of (objects s) k of None \<Rightarrow> Inl ClientError | Some b \<Rightarrow> Inr b))"

definition put_object :: "s3_service \<Rightarrow> string \<Rightarrow> body \<Rightarrow> exn + s3_service" where
  "put_object s k b =
     (case fault s PutObject of
        Some e \<Rightarrow> Inl e
      | None \<Rightarrow> Inr (s\<lparr>objects := AList.update k b (objects s)\<rparr>))"

definition delete_object :: "s3_service \<Rightarrow> string \<Rightarrow> exn + s3_service" where
  "delete_object s k =
     (case fault s DeleteObject of
        Some e \<Rightarrow> Inl e
      | None \<Rightarrow> Inr (s\<lparr>objects := AList.delete k (objects s)\<rparr>))"

definition delete_objects :: "s3_service \<Rightarrow> string list \<Rightarrow> exn + s3_service" where
  "delete_objects s ks =
     (case fault s DeleteObjects of
        Some e \<Rightarrow> Inl e
      | None \<Rightarrow> Inr (s\<lparr>objects := filter (\<lambda>(k, b). k \<notin> set ks) (objects s)\<rparr>))"

subsection \<open>Key layout\<close>

definition script_key :: "string \<Rightarrow> int \<Rightarrow> string" where
  "script_key project_name ver =
     ''input/'' @ project_name @ ''/'' @ project_name @ ''_v'' @ str_int ver @ ''.py''"

definition processed_key :: "string \<Rightarrow> int \<Rightarrow> string" where
  "processed_key project_name ver =
     ''processed/'' @ project_name @ ''/'' @ project_name @ ''_v'' @ str_int ver @ ''.py.done''"

definition output_prefix :: "string \<Rightarrow> int \<Rightarrow> string" where
  "output_prefix project_name ver = ''output/'' @ project_name @ ''/v'' @ str_int ver @ ''/''"

definition error_key :: "string \<Rightarrow> int \<Rightarrow> string" where
  "error_key project_name ver =
     ''errors/'' @ project_name @ ''/'' @ project_name @ ''_v'' @ str_int ver @ ''_error.json''"

definition fix_log_key :: "string \<Rightarrow> int \<Rightarrow> string \<Rightarrow> string" where
  "fix_log_key project_name ver stamp =
     ''logs/'' @ project_name @ ''/'' @ project_name @ ''_autofix_v'' @ str_int ver @ ''_'' @
     stamp @ ''.json''"

section \<open>VersionAllocator and ScriptSubmissionService\<close>

definition get_next_version :: "s3_service \<Rightarrow> string \<Rightarrow> int" where
  "get_next_version s project_name =
     (if \<not> s3_client s \<or> aws_bucket_name s = [] then 1
      else case list_objects_v2 s (''input/'' @ project_name @ ''/'') of
             Inl ClientError \<Rightarrow> 1
           | Inl OtherError \<Rightarrow> 1
           | Inr None \<Rightarrow> 1
           | Inr (Some contents) \<Rightarrow>
               (let versions =
                      concat (map (\<lambda>k. case re_search (match_script_version project_name) k of
                                          Some g \<Rightarrow> [int (int_of_digits g)]
                                        | None \<Rightarrow> []) contents)
                in if versions = [] then 1 else Max (set versions) + 1))"

text \<open>The result of \<open>upload_script\<close>: the failure dictionaries, or the file name and the
  version of the success dictionary.\<close>

datatype upload_result =
  UploadFailure string | UploadException exn | UploadSuccess string int

definition upload_script :: "s3_service \<Rightarrow> string \<Rightarrow> string \<Rightarrow> upload_result \<times> s3_service" where
  "upload_script s code project_name =
     (if \<not> s3_client s \<or> aws_bucket_name s = [] then (UploadFailure ''S3 not configured'', s)
      else
        (let ver = get_next_version s project_name;
             filename = script_key project_name ver
         in case put_object s filename (Text code) of
              Inl e \<Rightarrow> (UploadException e, s)
            | Inr s' \<Rightarrow> (UploadSuccess filename ver, s')))"

text \<open>Sequential submissions of the scripts \<open>codes\<close> for one project: the results in order
  and the final state.\<close>

fun submit_all :: "s3_service \<Rightarrow> string \<Rightarrow> string list \<Rightarrow> upload_result list \<times> s3_service" where
  "submit_all s project_name [] = ([], s)"
| "submit_all s project_name (code # codes) =
     (let (r, s') = upload_script s code project_name;
          (rs, s'') = submit_all s' project_name codes
      in (r # rs, s''))"

section \<open>Output artifacts: \<open>S3Service.check_output_files\<close>\<close>

record output_file =
  of_filename :: string
  of_key :: string
  of_format :: string
  of_version :: "int option"
  of_download_url :: "string option"

definition supported_extensions :: "string list" where
  "supported_extensions = [''.FCStd'', ''.STL'', ''.STEP'', ''.IGES'', ''.OBJ'', ''.GLTF'']"

text \<open>The body of the loop over the listed keys: the entry appended for a key, if any.\<close>

definition output_entry :: "string \<Rightarrow> output_file option" where
  "output_entry k =
     (let filename = last (split_on CHR ''/'' k) in
      if filename = ''metadata.json'' then None
      else
        (let file_version = (case re_search match_path_version k of
                               Some g \<Rightarrow> Some (int (int_of_digits g))
                             | None \<Rightarrow> None)
         in if list_ex (\<lambda>ext. suffix (upper ext) (upper filename)) supported_extensions
            then Some \<lparr>of_filename = filename, of_key = k,
                       of_format = ''.'' @ upper (last (split_on CHR ''.'' filename)),
                       of_version = file_version, of_download_url = None\<rparr>
            else None))"

text \<open>
  \<open>output_files.sort(key=lambda x: x.get('version', 0), reverse=True)\<close>: a stable sort,
  descending; comparing a version \<open>None\<close> raises \<open>TypeError\<close>, which happens as soon as the
  list has two elements and one of them has no version.
\<close>

definition sort_by_version :: "output_file list \<Rightarrow> exn + output_file list" where
  "sort_by_version fs =
     (if length fs \<ge> 2 \<and> list_ex (\<lambda>f. of_version f = None) fs then Inl OtherError
      else Inr (rev (sort_key (\<lambda>f. case of_version f of Some v \<Rightarrow> v | None \<Rightarrow> 0) (rev fs))))"

definition check_output_files :: "s3_service \<Rightarrow> string \<Rightarrow> int option \<Rightarrow> output_file list" where
  "check_output_files s project_name ver =
     (if \<not> s3_client s \<or> aws_bucket_name s = [] then []
      else
        (let specific = (case ver of None \<Rightarrow> False | Some v \<Rightarrow> v \<noteq> 0);
             pre = (case ver of
                      None \<Rightarrow> ''output/'' @ project_name @ ''/''
                    | Some v \<Rightarrow> if v \<noteq> 0 then ''output/'' @ project_name @ ''/v'' @ str_int v @ ''/''
                               else ''output/'' @ project_name @ ''/'')
         in case list_objects_v2 s pre of
              Inl ClientError \<Rightarrow> []
            | Inl OtherError \<Rightarrow> []
            | Inr None \<Rightarrow> []
            | Inr (Some contents) \<Rightarrow>
                (let output_files = List.map_filter output_entry contents in
                 if specific then output_files
                 else (case sort_by_version output_files of
                         Inl e \<Rightarrow> []
                       | Inr sorted_files \<Rightarrow> sorted_files))))"

section \<open>ProcessingMonitor: \<open>poll_for_output_files\<close>\<close>

definition max_attempts :: nat where
  "max_attempts = 20"

text \<open>
  What the polling task does to its collaborators: a call of
  \<open>s3_service.mark_script_processed\<close> with the output file names, the worker id and the log
  file, an update of the project's \<open>metadata.processing_status\<close> in the bookkeeping
  database, and the error log of the handler of the loop.
\<close>

datatype event =
  MarkScriptProcessed "string list" string "string option"
  | UpdateProject string
  | LogPollingError

text \<open>
  The \<open>while\<close> loop from the value \<open>attempt\<close> of the counter on. \<open>check n\<close> is the outcome
  of \<open>s3_service.check_output_files\<close> in the cycle that raises the counter to \<open>n\<close>, and
  \<open>timestamp n\<close> the formatted time of that cycle. The result is the final counter and
  the events of the loop.
\<close>

function poll_loop ::
  "(nat \<Rightarrow> exn + output_file list) \<Rightarrow> (nat \<Rightarrow> string) \<Rightarrow> string \<Rightarrow> nat \<Rightarrow> nat \<times> event list" where
  "poll_loop check timestamp project_name attempt =
     (if attempt < max_attempts then
        (case check (attempt + 1) of
           Inl e \<Rightarrow>
             (let (a, evs) = poll_loop check timestamp project_name (attempt + 1)
              in (a, LogPollingError # evs))
         | Inr output_files \<Rightarrow>
             if output_files \<noteq> [] then
               (attempt + 1,
                [MarkScriptProcessed (map of_filename output_files) ''aws-freecad-worker''
                   (Some (project_name @ ''_info_'' @ timestamp (attempt + 1) @ ''.log'')),
                 UpdateProject ''completed''])
             else poll_loop check timestamp project_name (attempt + 1))
      else (attempt, []))"
  by pat_completeness auto
termination
  by (relation "measure (\<lambda>(check, timestamp, project_name, attempt). max_attempts - attempt)")
    auto

text \<open>The task: the loop from 0, then the timeout block.\<close>

definition poll_task ::
  "(nat \<Rightarrow> exn + output_file list) \<Rightarrow> (nat \<Rightarrow> string) \<Rightarrow> string \<Rightarrow> event list" where
  "poll_task check timestamp project_name =
     (let (attempt, evs) = poll_loop check timestamp project_name 0
      in if attempt \<ge> max_attempts
         then evs @ [MarkScriptProcessed [] ''timeout'' None, UpdateProject ''timeout'']
         else evs)"

text \<open>\<open>world n\<close> is the service with the state of the bucket in cycle \<open>n\<close>.\<close>

definition poll_for_output_files ::
  "(nat \<Rightarrow> s3_service) \<Rightarrow> (nat \<Rightarrow> string) \<Rightarrow> string \<Rightarrow> int \<Rightarrow> event list" where
  "poll_for_output_files world timestamp project_name ver =
     poll_task (\<lambda>n. Inr (check_output_files (world n) project_name (Some ver)))
       timestamp project_name"

section \<open>RecoveryCoordinator\<close>

definition mark_script_failed ::
  "string \<Rightarrow> s3_service \<Rightarrow> string \<Rightarrow> int \<Rightarrow> string \<Rightarrow> int \<Rightarrow> bool \<times> s3_service" where
  "mark_script_failed now s project_name ver error_message retry_count =
     (if \<not> s3_client s then (False, s)
      else
        (let error_data =
               [(''project_name'', JStr project_name),
                (''version'', JInt ver),
                (''status'', JStr ''FAILED''),
                (''error_message'', JStr error_message),
                (''retry_count'', JInt retry_count),
                (''failed_at'', JStr now),
                (''max_retries'', JInt 3),
                (''next_retry_after'', if retry_count < 3 then JStr now else JNull)]
         in case put_object s (error_key project_name ver) (Json error_data) of
              Inl e \<Rightarrow> (False, s)
            | Inr s' \<Rightarrow> (True, s')))"

definition clear_version_outputs :: "s3_service \<Rightarrow> string \<Rightarrow> int \<Rightarrow> bool \<times> s3_service" where
  "clear_version_outputs s project_name ver =
     (if \<not> s3_client s then (False, s)
      else case list_objects_v2 s (output_prefix project_name ver) of
             Inl e \<Rightarrow> (False, s)
           | Inr None \<Rightarrow> (True, s)
           | Inr (Some contents) \<Rightarrow>
               if contents \<noteq> [] then
                 (case delete_objects s contents of
                    Inl e \<Rightarrow> (False, s)
                  | Inr s' \<Rightarrow> (True, s'))
               else (True, s))"

text \<open>
  The result dictionaries of \<open>retry_failed_script\<close> and \<open>replace_failed_script\<close>:
  \<open>Failure msg n\<close> is \<open>{"success": False, "error": msg}\<close>, with \<open>"retry_count": n\<close> when
  given; \<open>Exception e\<close> is \<open>{"success": False, "error": str(e)}\<close> of the outer handler;
  \<open>RetrySuccess\<close> and \<open>ReplaceSuccess\<close> are the dictionaries with \<open>"success": True\<close>.
\<close>

datatype result =
  Failure string "int option"
  | Exception exn
  | RetrySuccess string int int
  | ReplaceSuccess string int string

definition retry_failed_script ::
  "string \<Rightarrow> s3_service \<Rightarrow> string \<Rightarrow> int \<Rightarrow> result \<times> s3_service" where
  "retry_failed_script now s project_name ver =
     (if \<not> s3_client s then (Failure ''S3 not configured'' None, s)
      else
        (case get_object s (error_key project_name ver) of
           Inl ClientError \<Rightarrow> (Failure ''No error record found'' None, s)
         | Inl OtherError \<Rightarrow> (Exception OtherError, s)
         | Inr b \<Rightarrow>
            (case json_loads b of
               None \<Rightarrow> (Exception OtherError, s)
             | Some error_data \<Rightarrow>
                (case (case map_of error_data ''retry_count'' of
                         None \<Rightarrow> Inr 0
                       | Some (JInt n) \<Rightarrow> Inr n
                       | Some _ \<Rightarrow> Inl OtherError) of
                   Inl e \<Rightarrow> (Exception e, s)
                 | Inr retry_count \<Rightarrow>
                    if retry_count \<ge> 3 then
                      (Failure ''Maximum retry attempts reached'' (Some retry_count), s)
                    else
                      (case (case delete_object s (processed_key project_name ver) of
                               Inl ClientError \<Rightarrow> Inr s
                             | Inl OtherError \<Rightarrow> Inl OtherError
                             | Inr s1 \<Rightarrow> Inr s1) of
                         Inl e \<Rightarrow> (Exception e, s)
                       | Inr s1 \<Rightarrow>
                          (let error_data' =
                                 AList.update ''retry_attempted_at'' (JStr now)
                                   (AList.update ''retry_count'' (JInt (retry_count + 1))
                                      error_data)
                           in case put_object s1 (error_key project_name ver)
                                     (Json error_data') of
                                Inl e \<Rightarrow> (Exception e, s1)
                              | Inr s2 \<Rightarrow>
                                  (RetrySuccess project_name ver (retry_count + 1), s2)))))))"

definition replace_failed_script ::
  "s3_service \<Rightarrow> string \<Rightarrow> int \<Rightarrow> string \<Rightarrow> result \<times> s3_service" where
  "replace_failed_script s project_name ver new_code =
     (if \<not> s3_client s then (Failure ''S3 not configured'' None, s)
      else
        (case (case get_object s (error_key project_name ver) of
                 Inl ClientError \<Rightarrow> Inr None
               | Inl OtherError \<Rightarrow> Inl OtherError
               | Inr b \<Rightarrow> (case json_loads b of
                            None \<Rightarrow> Inl OtherError
                          | Some d \<Rightarrow> Inr (Some d))) of
           Inl e \<Rightarrow> (Exception e, s)
         | Inr error_data \<Rightarrow>
            (case put_object s (script_key project_name ver) (Text new_code) of
               Inl e \<Rightarrow> (Exception e, s)
             | Inr s1 \<Rightarrow>
                (case (case delete_object s1 (processed_key project_name ver) of
                         Inl ClientError \<Rightarrow> Inr s1
                       | Inl OtherError \<Rightarrow> Inl OtherError
                       | Inr s2 \<Rightarrow> Inr s2) of
                   Inl e \<Rightarrow> (Exception e, s1)
                 | Inr s2 \<Rightarrow>
                    (case (if error_data \<noteq> None \<and> error_data \<noteq> Some [] then
                             (case delete_object s2 (error_key project_name ver) of
                                Inl ClientError \<Rightarrow> Inr s2
                              | Inl OtherError \<Rightarrow> Inl OtherError
                              | Inr s3 \<Rightarrow> Inr s3)
                           else Inr s2) of
                       Inl e \<Rightarrow> (Exception e, s2)
                     | Inr s3 \<Rightarrow>
                        (let (cleared, s4) = clear_version_outputs s3 project_name ver
                         in (ReplaceSuccess project_name ver (script_key project_name ver),
                             s4)))))))"

text \<open>
  \<open>auto_fix_failed_script\<close>. \<open>answer\<close> is the outcome of the text-generation collaborator
  for the prompt built from the original script and the analysed logs, \<open>now\<close> and
  \<open>stamp\<close> are the current time in the two formats the source uses.
\<close>

definition auto_fix_failed_script ::
  "(string \<Rightarrow> string) \<Rightarrow> exn + string option \<Rightarrow> string \<Rightarrow> string \<Rightarrow> s3_service \<Rightarrow> string \<Rightarrow> int \<Rightarrow>
     string option \<Rightarrow> bool \<times> s3_service" where
  "auto_fix_failed_script float_repr answer now stamp s project_name ver error_message =
     (if \<not> s3_client s then (False, s)
      else
        (case get_object s (script_key project_name ver) of
           Inl e \<Rightarrow> (False, s)
         | Inr b \<Rightarrow>
            (let original_code = body_text b;
                 corrected_code =
                   generate_ai_fixed_script float_repr answer original_code error_message
             in case put_object s (script_key project_name ver) (Text corrected_code) of
                  Inl e \<Rightarrow> (False, s)
                | Inr s1 \<Rightarrow>
                   (case (case delete_object s1 (processed_key project_name ver) of
                            Inl ClientError \<Rightarrow> Inr s1
                          | Inl OtherError \<Rightarrow> Inl OtherError
                          | Inr s2 \<Rightarrow> Inr s2) of
                      Inl e \<Rightarrow> (False, s1)
                    | Inr s2 \<Rightarrow>
                       (let (cleared, s3) = clear_version_outputs s2 project_name ver;
                            fix_log =
                              [(''project_name'', JStr project_name),
                               (''version'', JInt ver),
                               (''action'', JStr ''auto_fix''),
                               (''original_error'',
                                  case error_message of None \<Rightarrow> JNull | Some m \<Rightarrow> JStr m),
                               (''fixed_at'', JStr now),
                               (''fix_type'', JStr ''cadquery_to_freecad''),
                               (''status'', JStr ''script_replaced'')]
                        in case put_object s3 (fix_log_key project_name ver stamp)
                                  (Json fix_log) of
                             Inl e \<Rightarrow> (False, s3)
                           | Inr s4 \<Rightarrow> (True, s4))))))"

section \<open>Auxiliary notions of the statements\<close>

text \<open>The versions that \<open>get_next_version\<close> reads off a listing.\<close>

definition listed_versions :: "string \<Rightarrow> string list \<Rightarrow> int list" where
  "listed_versions p ks =
     concat (map (\<lambda>k. case re_search (match_script_version p) k of
                         Some g \<Rightarrow> [int (int_of_digits g)]
                       | None \<Rightarrow> []) ks)"

text \<open>After \<open>n\<close> submissions to a job that had no key: the keys of its namespace are its
  first \<open>n\<close> script keys, on a configured service whose store answers.\<close>

definition fresh_inv :: "string \<Rightarrow> nat \<Rightarrow> s3_service \<Rightarrow> bool" where
  "fresh_inv p n s \<longleftrightarrow>
     s3_client s \<and> aws_bucket_name s \<noteq> [] \<and> fault s ListObjectsV2 = None \<and>
     fault s PutObject = None \<and>
     {k \<in> fst ` set (objects s). prefix (''input/'' @ p @ ''/'') k} =
       (\<lambda>i. script_key p (int i)) ` {1..n}"

text \<open>The bucket that holds the scripts of the versions 1 to \<open>n\<close> of a job and nothing
  else, in the order of their upload.\<close>

definition sequential_store :: "string \<Rightarrow> nat \<Rightarrow> (string \<times> body) list" where
  "sequential_store p n = map (\<lambda>i. (script_key p (int i), Text ''print(1)'')) [1..<Suc n]"

text \<open>The versions among 1 to 1900 whose script keys are the first 1000 in key order.\<close>

definition in_first_page :: "nat \<Rightarrow> bool" where
  "in_first_page n \<longleftrightarrow>
     n = 1 \<or> (10 \<le> n \<and> n \<le> 18) \<or> (100 \<le> n \<and> n \<le> 189) \<or> (1000 \<le> n \<and> n \<le> 1899)"

text \<open>Example services: one whose store answers every call, and one whose listing raises
  \<open>ClientError\<close>.\<close>

definition example_service :: "(string \<times> body) list \<Rightarrow> s3_service" where
  "example_service objs =
     \<lparr>s3_client = True, aws_bucket_name = ''cad-bucket'', objects = objs,
      fault = (\<lambda>c. None)\<rparr>"

definition faulty_listing_service :: "(string \<times> body) list \<Rightarrow> s3_service" where
  "faulty_listing_service objs =
     \<lparr>s3_client = True, aws_bucket_name = ''cad-bucket'', objects = objs,
      fault = (\<lambda>c. if c = ListObjectsV2 then Some ClientError else None)\<rparr>"

text \<open>The processed marker of a version is absent; the keys of its output folder.\<close>

definition marker_absent :: "s3_service \<Rightarrow> string \<Rightarrow> int \<Rightarrow> bool" where
  "marker_absent s project_name ver \<longleftrightarrow>
     map_of (objects s) (processed_key project_name ver) = None"

definition output_keys :: "s3_service \<Rightarrow> string \<Rightarrow> int \<Rightarrow> string list" where
  "output_keys s project_name ver =
     filter (prefix (output_prefix project_name ver)) (map fst (objects s))"

text \<open>A service whose bucket holds version 1 of the job \<open>demo\<close> after a failed run: the
  script, the processed marker, an output artifact and the error record with the given
  \<open>retry_count\<close>.\<close>

definition failed_version_service :: "int \<Rightarrow> s3_service" where
  "failed_version_service n =
     example_service
       [(''input/demo/demo_v1.py'', Text ''import cadquery as cq''),
        (''processed/demo/demo_v1.py.done'', Text []),
        (''output/demo/v1/model.stl'', Text ''solid''),
        (''errors/demo/demo_v1_error.json'',
         Json [(''project_name'', JStr ''demo''), (''version'', JInt 1),
               (''status'', JStr ''FAILED''), (''error_message'', JStr ''boom''),
               (''retry_count'', JInt n), (''failed_at'', JStr ''2025-01-01T00:00:00''),
               (''max_retries'', JInt 3),
               (''next_retry_after'', JStr ''2025-01-01T00:00:00'')])]"

section \<open>Properties of the object store\<close>

subsection \<open>One page of a listing\<close>

lemma set_page_subset: "set (take n (sort (remdups xs))) \<subseteq> set xs"
  using set_take_subset[of n "sort (remdups xs)"] by simp

lemma page_all:
  assumes "card (set xs) \<le> n"
  shows "set (take n (sort (remdups xs))) = set xs"
proof -
  have "length (sort (remdups xs)) = card (set xs)"
    by (simp add: length_remdups_card_conv)
  then have "take n (sort (remdups xs)) = sort (remdups xs)"
    using assms by simp
  then show ?thesis by simp
qed

lemma page_Nil:
  assumes "0 < n"
  shows "take n (sort (remdups xs)) = [] \<longleftrightarrow> xs = []"
proof -
  have "set (sort (remdups xs)) = set xs" by simp
  then have "sort (remdups xs) = [] \<longleftrightarrow> xs = []" by (metis set_empty)
  then show ?thesis using assms by simp
qed

text \<open>The first \<open>n\<close> elements of a sorted list without repetition are a set of \<open>n\<close>
  elements below all the others.\<close>

lemma page_least:
  fixes xs :: "'a::linorder list"
  assumes d: "distinct xs" and sub: "A \<subseteq> set xs" and c: "card A = n"
    and below: "\<And>a b. a \<in> A \<Longrightarrow> b \<in> set xs \<Longrightarrow> b \<notin> A \<Longrightarrow> a < b"
  shows "set (take n (sort xs)) = A"
proof -
  define ys where "ys = sort xs"
  have ys: "sorted ys" "distinct ys" "set ys = set xs"
    by (simp_all add: ys_def d)
  have fin: "finite A" using sub finite_subset by blast
  have "n \<le> card (set xs)" using c card_mono[OF _ sub] by simp
  then have len: "n \<le> length ys" using ys(2,3) distinct_card by fastforce
  let ?T = "set (take n ys)" and ?D = "set (drop n ys)"
  have "sorted (take n ys @ drop n ys)" "distinct (take n ys @ drop n ys)"
    using ys by simp_all
  then have lt: "t < u" if "t \<in> ?T" "u \<in> ?D" for t u
    using that unfolding sorted_append distinct_append
    by (metis IntI empty_iff order_le_less)
  have cT: "card ?T = n"
    using len ys(2) by (simp add: distinct_card distinct_take)
  have split: "set ys = ?T \<union> ?D"
    using set_append[of "take n ys" "drop n ys"] by simp
  have "A \<subseteq> ?T"
  proof (rule ccontr)
    assume "\<not> A \<subseteq> ?T"
    then obtain a where a: "a \<in> A" "a \<notin> ?T" by blast
    then have aD: "a \<in> ?D" using sub ys(3) split by blast
    have "?T \<subseteq> A"
    proof
      fix t assume t: "t \<in> ?T"
      show "t \<in> A"
      proof (rule ccontr)
        assume "t \<notin> A"
        moreover have "t \<in> set xs" using t split ys(3) by blast
        ultimately have "a < t" using below a(1) by blast
        moreover have "t < a" using lt t aD by blast
        ultimately show False by simp
      qed
    qed
    then have "?T = A" using cT c fin by (simp add: card_subset_eq)
    then show False using a by blast
  qed
  then have "A = ?T" using cT c by (simp add: card_subset_eq)
  then show ?thesis unfolding ys_def by simp
qed

subsection \<open>Listing\<close>

lemma list_objects_v2_subset:
  assumes "list_objects_v2 s pre = Inr (Some contents)"
  shows "set contents \<subseteq> {k \<in> fst ` set (objects s). prefix pre k}"
proof -
  have "contents = take max_keys (sort (remdups (filter (prefix pre) (map fst (objects s)))))"
    using assms by (simp add: list_objects_v2_def Let_def split: option.splits if_splits)
  then have "set contents \<subseteq> set (filter (prefix pre) (map fst (objects s)))"
    using set_page_subset[of max_keys "filter (prefix pre) (map fst (objects s))"] by simp
  then show ?thesis by auto
qed

lemma list_objects_v2_page:
  assumes "fault s ListObjectsV2 = None"
  shows "list_objects_v2 s pre =
     Inr (if filter (prefix pre) (map fst (objects s)) = [] then None
          else Some (take max_keys (sort (remdups (filter (prefix pre) (map fst (objects s)))))))"
proof -
  have "take max_keys (sort (remdups (filter (prefix pre) (map fst (objects s))))) = [] \<longleftrightarrow>
        filter (prefix pre) (map fst (objects s)) = []"
    using page_Nil[of max_keys] by (simp add: max_keys_def)
  then show ?thesis
    using assms unfolding list_objects_v2_def Let_def by simp
qed

lemma list_objects_v2_all:
  assumes "fault s ListObjectsV2 = None"
    and "list_objects_v2 s pre = Inr (Some contents)"
    and "card {k \<in> fst ` set (objects s). prefix pre k} \<le> max_keys"
  shows "set contents = {k \<in> fst ` set (objects s). prefix pre k}"
proof -
  have e: "set (filter (prefix pre) (map fst (objects s))) =
           {k \<in> fst ` set (objects s). prefix pre k}"
    by auto
  have "contents = take max_keys (sort (remdups (filter (prefix pre) (map fst (objects s)))))"
    using assms(1,2) by (simp add: list_objects_v2_def Let_def split: if_splits)
  then show ?thesis
    using page_all[of "filter (prefix pre) (map fst (objects s))" max_keys] assms(3)
    unfolding e by simp
qed


section \<open>Properties of the ErrorAnalyzer\<close>

lemma parse_loop_append:
  "parse_loop lines i (xs @ ys) info =
     parse_loop lines (i + length xs) ys (parse_loop lines i xs info)"
  by (induction xs arbitrary: i info) simp_all

lemma parse_line_error_type:
  "error_type (parse_line lines i l info) =
     (case assigned_type (branch_of l) of Some t \<Rightarrow> t | None \<Rightarrow> error_type info)"
  by (simp add: parse_line_def assigned_type_def split: branch.splits)

lemma parse_line_error_details:
  "error_details (parse_line lines i l info) =
     (case assigned_details l of Some d \<Rightarrow> d | None \<Rightarrow> error_details info)"
  by (simp add: parse_line_def assigned_details_def split: branch.splits)

lemma parse_line_missing_modules:
  "missing_modules (parse_line lines i l info) = missing_modules info @ line_modules l"
  by (simp add: parse_line_def line_modules_def split: branch.splits)

lemma parse_line_syntax_errors:
  "syntax_errors (parse_line lines i l info) = syntax_errors info @ line_syntax_errors l"
  by (simp add: parse_line_def line_syntax_errors_def split: branch.splits)

lemma parse_line_runtime_errors:
  "runtime_errors (parse_line lines i l info) = runtime_errors info @ line_runtime_errors l"
  by (simp add: parse_line_def line_runtime_errors_def split: branch.splits)

lemma parse_loop_neutral_type:
  "\<forall>x\<in>set xs. assigned_type (branch_of x) = None \<Longrightarrow>
   error_type (parse_loop lines i xs info) = error_type info"
  by (induction xs arbitrary: i info) (simp_all add: parse_line_error_type)

lemma parse_loop_neutral_details:
  "\<forall>x\<in>set xs. assigned_details x = None \<Longrightarrow>
   error_details (parse_loop lines i xs info) = error_details info"
  by (induction xs arbitrary: i info) (simp_all add: parse_line_error_details)

lemma parse_loop_missing_modules:
  "missing_modules (parse_loop lines i xs info) =
     missing_modules info @ concat (map line_modules xs)"
  by (induction xs arbitrary: i info) (simp_all add: parse_line_missing_modules)

lemma parse_loop_syntax_errors:
  "syntax_errors (parse_loop lines i xs info) =
     syntax_errors info @ concat (map line_syntax_errors xs)"
  by (induction xs arbitrary: i info) (simp_all add: parse_line_syntax_errors)

lemma parse_loop_runtime_errors:
  "runtime_errors (parse_loop lines i xs info) =
     runtime_errors info @ concat (map line_runtime_errors xs)"
  by (induction xs arbitrary: i info) (simp_all add: parse_line_runtime_errors)

lemma parse_loop_last_type:
  assumes "assigned_type (branch_of l) = Some t"
    and "\<forall>x\<in>set post. assigned_type (branch_of x) = None"
  shows "error_type (parse_loop lines i (pre @ l # post) info) = t"
  using assms
  by (simp add: parse_loop_append parse_loop_neutral_type parse_line_error_type)

lemma parse_loop_last_details:
  assumes "assigned_details l = Some d"
    and "\<forall>x\<in>set post. assigned_details x = None"
  shows "error_details (parse_loop lines i (pre @ l # post) info) = d"
  using assms
  by (simp add: parse_loop_append parse_loop_neutral_details parse_line_error_details)

lemma parse_log_content_missing_modules:
  "missing_modules (parse_log_content log_content) =
     concat (map line_modules (split_on newline log_content))"
  by (simp add: parse_log_content_def Let_def parse_loop_missing_modules
      initial_error_info_def)

text \<open>
  C5, as stated, fails: a module-not-found line that names \<open>ImportGui\<close> takes the import
  branch, which is tested first, so the diagnosis has \<open>error_type = "import_error"\<close>; the
  module is recorded, in lower case.
\<close>

theorem gui_module_import_line_counterexample:
  "error_type (parse_log_content ''ModuleNotFoundError: No module named ImportGui'')
     = ''import_error''
   \<and> error_type (parse_log_content ''ModuleNotFoundError: No module named ImportGui'')
     \<noteq> ''gui_error''
   \<and> missing_modules (parse_log_content ''ModuleNotFoundError: No module named ImportGui'')
     = [''importgui'']"
  by code_simp

text \<open>
  C5 (amended). If a line of the log is an import-error or module-not-found line that
  names \<open>importgui\<close> (in any case) and names neither \<open>cadquery\<close> nor \<open>cq\<close>, then
  \<open>importgui\<close> is among the \<open>missing_modules\<close> of the diagnosis; and when no later line
  assigns an error type, the \<open>error_type\<close> of the diagnosis is \<open>import_error\<close>.
\<close>

theorem import_line_naming_gui_module:
  assumes "split_on newline log_content = pre @ l # post"
    and "contains (lower l) ''importerror'' \<or> contains (lower l) ''modulenotfounderror''"
    and "contains (lower l) ''importgui''"
    and "\<not> contains (lower l) ''cadquery''" and "\<not> contains (lower l) ''cq''"
  shows "''importgui'' \<in> set (missing_modules (parse_log_content log_content))
       \<and> ((\<forall>x\<in>set post. assigned_type (branch_of x) = None)
            \<longrightarrow> error_type (parse_log_content log_content) = ''import_error'')"
proof -
  have br: "branch_of l = ImportBranch"
    using assms(2) by (auto simp: branch_of_def Let_def)
  have "import_module l = [''importgui'']"
    using assms(3,4,5) by (simp add: import_module_def Let_def)
  then have "line_modules l = [''importgui'']"
    using br by (simp add: line_modules_def)
  then have mods: "''importgui'' \<in> set (missing_modules (parse_log_content log_content))"
    by (simp add: parse_log_content_missing_modules assms(1))
  have ty: "assigned_type (branch_of l) = Some ''import_error''"
    using br by (simp add: assigned_type_def)
  have "error_type (parse_log_content log_content) = ''import_error''"
    if "\<forall>x\<in>set post. assigned_type (branch_of x) = None"
    using that ty assms(1) by (simp add: parse_log_content_def Let_def parse_loop_last_type)
  then show ?thesis using mods by blast
qed

theorem import_line_naming_gui_module_witness:
  "split_on newline (''Traceback'' @ [newline] @ ''ImportError: cannot import ImportGui'' @
       [newline] @ ''worker stopped'')
     = [''Traceback''] @ ''ImportError: cannot import ImportGui'' # [''worker stopped'']
   \<and> (contains (lower ''ImportError: cannot import ImportGui'') ''importerror''
        \<or> contains (lower ''ImportError: cannot import ImportGui'') ''modulenotfounderror'')
   \<and> contains (lower ''ImportError: cannot import ImportGui'') ''importgui''
   \<and> \<not> contains (lower ''ImportError: cannot import ImportGui'') ''cadquery''
   \<and> \<not> contains (lower ''ImportError: cannot import ImportGui'') ''cq''
   \<and> assigned_type (branch_of ''worker stopped'') = None
   \<and> ''importgui'' \<in> set (missing_modules (parse_log_content
         (''Traceback'' @ [newline] @ ''ImportError: cannot import ImportGui'' @
          [newline] @ ''worker stopped'')))
   \<and> error_type (parse_log_content
         (''Traceback'' @ [newline] @ ''ImportError: cannot import ImportGui'' @
          [newline] @ ''worker stopped'')) = ''import_error''"
proof -
  let ?l = "''ImportError: cannot import ImportGui''"
  let ?log = "''Traceback'' @ [newline] @ ?l @ [newline] @ ''worker stopped''"
  have h1: "split_on newline ?log = [''Traceback''] @ ?l # [''worker stopped'']"
    by code_simp
  have h2: "contains (lower ?l) ''importerror'' \<or> contains (lower ?l) ''modulenotfounderror''"
    by code_simp
  have h3: "contains (lower ?l) ''importgui''"
    by code_simp
  have h4: "\<not> contains (lower ?l) ''cadquery''"
    by code_simp
  have h5: "\<not> contains (lower ?l) ''cq''"
    by code_simp
  have h6: "\<forall>x\<in>set [''worker stopped'']. assigned_type (branch_of x) = None"
    by code_simp
  show ?thesis
    using import_line_naming_gui_module[OF h1 h2 h3 h4 h5] h1 h2 h3 h4 h5 h6 by simp
qed

text \<open>
  C6, as stated, fails: each matching line assigns the scalar fields anew, so the last
  matching line decides them. Here the syntax-error line overrides the type set by the
  import line, and the second import line overrides the details of the first.
\<close>

theorem first_match_counterexample:
  "error_type (parse_log_content
       (''ImportError: No module named cadquery'' @ [newline] @
        ''SyntaxError: invalid syntax'')) = ''syntax_error''
   \<and> error_details (parse_log_content
       (''ImportError: No module named cadquery'' @ [newline] @
        ''ImportError: No module named numpy'')) = ''ImportError: No module named numpy''"
  by code_simp

text \<open>
  C6 (amended). The scalar fields \<open>error_type\<close> and \<open>error_details\<close> of the diagnosis are
  those assigned by the last line that assigns them (a later matching line overrides an
  earlier one), while the list fields \<open>missing_modules\<close>, \<open>syntax_errors\<close> and
  \<open>runtime_errors\<close> collect, in order, what every line contributes.
\<close>

theorem parse_log_content_last_match_wins:
  assumes "split_on newline log_content = pre @ l # post"
  shows "(assigned_type (branch_of l) = Some t \<and>
            (\<forall>x\<in>set post. assigned_type (branch_of x) = None)
          \<longrightarrow> error_type (parse_log_content log_content) = t)
       \<and> (assigned_details l = Some d \<and> (\<forall>x\<in>set post. assigned_details x = None)
          \<longrightarrow> error_details (parse_log_content log_content) = d)
       \<and> missing_modules (parse_log_content log_content) =
            concat (map line_modules (split_on newline log_content))
       \<and> syntax_errors (parse_log_content log_content) =
            concat (map line_syntax_errors (split_on newline log_content))
       \<and> runtime_errors (parse_log_content log_content) =
            concat (map line_runtime_errors (split_on newline log_content))"
proof -
  have lists: "missing_modules (parse_log_content log_content) =
            concat (map line_modules (split_on newline log_content))"
     "syntax_errors (parse_log_content log_content) =
            concat (map line_syntax_errors (split_on newline log_content))"
     "runtime_errors (parse_log_content log_content) =
            concat (map line_runtime_errors (split_on newline log_content))"
    by (simp_all add: parse_log_content_def Let_def parse_loop_missing_modules
        parse_loop_syntax_errors parse_loop_runtime_errors initial_error_info_def)
  have ty: "error_type (parse_log_content log_content) = t"
    if "assigned_type (branch_of l) = Some t"
      "\<forall>x\<in>set post. assigned_type (branch_of x) = None"
    using that assms by (simp add: parse_log_content_def Let_def parse_loop_last_type)
  have de: "error_details (parse_log_content log_content) = d"
    if "assigned_details l = Some d" "\<forall>x\<in>set post. assigned_details x = None"
    using that assms by (simp add: parse_log_content_def Let_def parse_loop_last_details)
  show ?thesis using lists ty de by blast
qed

theorem parse_log_content_last_match_wins_witness:
  "split_on newline (''ImportError: No module named cadquery'' @ [newline] @
       ''  no ImportGui here '' @ [newline] @ ''done'')
     = [''ImportError: No module named cadquery''] @ ''  no ImportGui here '' # [''done'']
   \<and> assigned_type (branch_of ''  no ImportGui here '') = Some ''gui_error''
   \<and> assigned_type (branch_of ''done'') = None
   \<and> assigned_details ''  no ImportGui here '' = Some ''no ImportGui here''
   \<and> assigned_details ''done'' = None
   \<and> error_type (parse_log_content (''ImportError: No module named cadquery'' @ [newline] @
       ''  no ImportGui here '' @ [newline] @ ''done'')) = ''gui_error''
   \<and> error_details (parse_log_content (''ImportError: No module named cadquery'' @
       [newline] @ ''  no ImportGui here '' @ [newline] @ ''done'')) = ''no ImportGui here''"
proof -
  let ?l = "''  no ImportGui here ''"
  let ?log = "''ImportError: No module named cadquery'' @ [newline] @ ?l @ [newline] @ ''done''"
  have h1: "split_on newline ?log = [''ImportError: No module named cadquery''] @ ?l # [''done'']"
    by code_simp
  have h2: "assigned_type (branch_of ?l) = Some ''gui_error''"
    by code_simp
  have h3: "\<forall>x\<in>set [''done'']. assigned_type (branch_of x) = None"
    by code_simp
  have h4: "assigned_details ?l = Some ''no ImportGui here''"
    by code_simp
  have h5: "\<forall>x\<in>set [''done'']. assigned_details x = None"
    by code_simp
  show ?thesis
    using parse_log_content_last_match_wins[OF h1, of "''gui_error''" "''no ImportGui here''"]
      h1 h2 h3 h4 h5 by simp
qed

section \<open>Properties of the VersionAllocator\<close>

subsection \<open>Decimal numerals\<close>

lemma is_digit_digit_char: "d < 10 \<Longrightarrow> is_digit (digit_char d)"
  by (simp add: is_digit_def digit_char_def)

lemma digit_val_digit_char: "d < 10 \<Longrightarrow> digit_val (digit_char d) = d"
  by (simp add: digit_val_def digit_char_def)

lemma str_nat_digits: "str_nat n \<noteq> [] \<and> (\<forall>c\<in>set (str_nat n). is_digit c)"
proof (induction n rule: str_nat.induct)
  case (1 n)
  show ?case
  proof (cases "n < 10")
    case True
    then show ?thesis by (subst (1 2) str_nat.simps) (simp add: is_digit_digit_char)
  next
    case False
    then show ?thesis using 1 by (subst (1 2) str_nat.simps) (simp add: is_digit_digit_char)
  qed
qed

lemma int_of_digits_snoc: "int_of_digits (ds @ [c]) = 10 * int_of_digits ds + digit_val c"
  by (simp add: int_of_digits_def)

lemma int_of_digits_str_nat: "int_of_digits (str_nat n) = n"
proof (induction n rule: str_nat.induct)
  case (1 n)
  show ?case
  proof (cases "n < 10")
    case True
    then show ?thesis
      by (subst str_nat.simps) (simp add: int_of_digits_def digit_val_digit_char)
  next
    case False
    then have "int_of_digits (str_nat n) = 10 * (n div 10) + n mod 10"
      using 1 by (subst str_nat.simps) (simp add: int_of_digits_snoc digit_val_digit_char)
    then show ?thesis by simp
  qed
qed

lemma str_int_nat: "str_int (int n) = str_nat n"
  by (simp add: str_int_def)

subsection \<open>Searching\<close>

lemma re_search_Some:
  "re_search m s = Some g \<Longrightarrow> \<exists>a b. s = a @ b \<and> m b = Some g"
proof (induction s)
  case Nil
  then show ?case by simp
next
  case (Cons c cs)
  show ?case
  proof (cases "m (c # cs)")
    case None
    then obtain a b where "cs = a @ b" "m b = Some g" using Cons by auto
    then have "c # cs = (c # a) @ b" by simp
    then show ?thesis using \<open>m b = Some g\<close> by blast
  next
    case (Some g')
    then have "g' = g" using Cons.prems by simp
    then have "c # cs = [] @ (c # cs) \<and> m (c # cs) = Some g" using Some by simp
    then show ?thesis by blast
  qed
qed

lemma re_search_exists:
  "m b = Some g \<Longrightarrow> \<exists>g'. re_search m (a @ b) = Some g'"
proof (induction a)
  case Nil
  then show ?case by (cases b) auto
next
  case (Cons c a)
  then show ?case by (cases "m (c # a @ b)") auto
qed

lemma re_search_unique:
  assumes "m b = Some g"
    and "\<And>a' b' g'. a @ b = a' @ b' \<Longrightarrow> m b' = Some g' \<Longrightarrow> g' = g"
  shows "re_search m (a @ b) = Some g"
proof -
  have "\<exists>g'. re_search m (a @ b) = Some g'"
    using assms(1) by (rule re_search_exists[of m b g a])
  then obtain g' where g': "re_search m (a @ b) = Some g'" by auto
  from re_search_Some[OF g']
  obtain a' b' where "a @ b = a' @ b'" "m b' = Some g'" by auto
  then have "g' = g" by (rule assms(2))
  then show ?thesis using g' by simp
qed

subsection \<open>The script pattern\<close>

lemma is_digit_dot: "\<not> is_digit CHR ''.''"
  by (simp add: is_digit_def)

lemma is_digit_v: "\<not> is_digit CHR ''v''"
  by (simp add: is_digit_def)

lemma takeWhile_digits_dot:
  "\<forall>c\<in>set ds. is_digit c \<Longrightarrow> takeWhile is_digit (ds @ CHR ''.'' # r) = ds"
  by (simp add: takeWhile_append2 is_digit_dot)

lemma dropWhile_digits_dot:
  "\<forall>c\<in>set ds. is_digit c \<Longrightarrow> dropWhile is_digit (ds @ CHR ''.'' # r) = CHR ''.'' # r"
  by (simp add: dropWhile_append2 is_digit_dot)

lemma match_script_version_iff:
  "match_script_version p b = Some ds \<longleftrightarrow>
     ds \<noteq> [] \<and> (\<forall>c\<in>set ds. is_digit c) \<and>
     (b = p @ ''_v'' @ ds @ ''.py'' \<or> b = p @ ''_v'' @ ds @ ''.py'' @ [newline])"
proof
  assume m: "match_script_version p b = Some ds"
  then have pre: "prefix (p @ ''_v'') b"
    unfolding match_script_version_def by (auto split: if_splits)
  then obtain r where b: "b = (p @ ''_v'') @ r" by (auto simp: prefix_def)
  have r: "drop (length p + 2) b = r" using b by simp
  from m pre r have ds: "ds = takeWhile is_digit r" "ds \<noteq> []"
      and rest: "dropWhile is_digit r = ''.py'' \<or> dropWhile is_digit r = ''.py'' @ [newline]"
    unfolding match_script_version_def Let_def by (auto split: if_splits)
  have split: "r = ds @ dropWhile is_digit r"
    unfolding ds(1) by simp
  have dig: "\<forall>c\<in>set ds. is_digit c"
    unfolding ds(1) by (metis set_takeWhileD)
  from rest have "b = p @ ''_v'' @ ds @ ''.py'' \<or> b = p @ ''_v'' @ ds @ ''.py'' @ [newline]"
  proof
    assume "dropWhile is_digit r = ''.py''"
    then have "r = ds @ ''.py''" using split by metis
    then show ?thesis using b by simp
  next
    assume "dropWhile is_digit r = ''.py'' @ [newline]"
    then have "r = ds @ ''.py'' @ [newline]" using split by metis
    then show ?thesis using b by simp
  qed
  then show "ds \<noteq> [] \<and> (\<forall>c\<in>set ds. is_digit c) \<and>
     (b = p @ ''_v'' @ ds @ ''.py'' \<or> b = p @ ''_v'' @ ds @ ''.py'' @ [newline])"
    using ds(2) dig by blast
next
  assume a: "ds \<noteq> [] \<and> (\<forall>c\<in>set ds. is_digit c) \<and>
     (b = p @ ''_v'' @ ds @ ''.py'' \<or> b = p @ ''_v'' @ ds @ ''.py'' @ [newline])"
  then have dig: "\<forall>c\<in>set ds. is_digit c" and ne: "ds \<noteq> []" by auto
  from a obtain r where r: "r = ''py'' \<or> r = ''py'' @ [newline]"
    and b: "b = (p @ ''_v'') @ ds @ CHR ''.'' # r" by auto
  have pre: "prefix (p @ ''_v'') b" using b by simp
  have dr: "drop (length p + 2) b = ds @ CHR ''.'' # r" using b by simp
  have tw: "takeWhile is_digit (drop (length p + 2) b) = ds"
    unfolding dr using dig by (rule takeWhile_digits_dot)
  have dw: "dropWhile is_digit (drop (length p + 2) b) = CHR ''.'' # r"
    unfolding dr using dig by (rule dropWhile_digits_dot)
  have "CHR ''.'' # r = ''.py'' \<or> CHR ''.'' # r = ''.py'' @ [newline]"
    using r by auto
  then show "match_script_version p b = Some ds"
    unfolding match_script_version_def Let_def tw dw using pre ne by simp
qed

text \<open>Two texts that end in \<open>_v\<close>, digits and the same rest carry the same digits.\<close>

lemma takeWhile_digits_v:
  assumes "\<forall>c\<in>set ds. is_digit c"
  shows "takeWhile is_digit (rev ds @ CHR ''v'' # r) = rev ds"
proof -
  have "takeWhile is_digit (rev ds @ CHR ''v'' # r) = rev ds @ takeWhile is_digit (CHR ''v'' # r)"
    using assms by (intro takeWhile_append2) simp
  then show ?thesis by (simp add: is_digit_v)
qed

lemma trailing_digits_unique:
  assumes "x @ ''_v'' @ ds = y @ ''_v'' @ es"
    and "\<forall>c\<in>set ds. is_digit c" and "\<forall>c\<in>set es. is_digit c"
  shows "ds = es"
proof -
  have "rev ds @ CHR ''v'' # CHR ''_'' # rev x = rev es @ CHR ''v'' # CHR ''_'' # rev y"
    using arg_cong[OF assms(1), of rev] by simp
  then have "takeWhile is_digit (rev ds @ CHR ''v'' # CHR ''_'' # rev x) =
             takeWhile is_digit (rev es @ CHR ''v'' # CHR ''_'' # rev y)"
    by simp
  then have "rev ds = rev es"
    by (simp only: takeWhile_digits_v[OF assms(2)] takeWhile_digits_v[OF assms(3)])
  then show ?thesis by simp
qed

lemma match_script_version_D:
  assumes "match_script_version p b = Some ds"
  shows "ds \<noteq> [] \<and> (\<forall>c\<in>set ds. is_digit c) \<and>
     (b = p @ ''_v'' @ ds @ ''.py'' \<or> b = p @ ''_v'' @ ds @ ''.py'' @ [newline])"
  using assms by (rule iffD1[OF match_script_version_iff])

lemma re_search_script_version_D:
  assumes "re_search (match_script_version p) k = Some ds"
  shows "ds \<noteq> [] \<and> (\<forall>c\<in>set ds. is_digit c) \<and>
     (\<exists>a. k = a @ p @ ''_v'' @ ds @ ''.py'' \<or> k = a @ p @ ''_v'' @ ds @ ''.py'' @ [newline])"
proof -
  from re_search_Some[OF assms]
  obtain a b where k: "k = a @ b" and m: "match_script_version p b = Some ds"
    by (elim exE conjE)
  note d = match_script_version_D[OF m]
  have ds: "ds \<noteq> []" "\<forall>c\<in>set ds. is_digit c"
    using d by (rule conjunct1, intro conjunct1[OF conjunct2[OF d]])
  have b: "b = p @ ''_v'' @ ds @ ''.py'' \<or> b = p @ ''_v'' @ ds @ ''.py'' @ [newline]"
    by (rule conjunct2[OF conjunct2[OF d]])
  from b have "k = a @ p @ ''_v'' @ ds @ ''.py'' \<or> k = a @ p @ ''_v'' @ ds @ ''.py'' @ [newline]"
  proof
    assume "b = p @ ''_v'' @ ds @ ''.py''"
    then have "k = a @ p @ ''_v'' @ ds @ ''.py''" unfolding k by simp
    then show ?thesis by (rule disjI1)
  next
    assume "b = p @ ''_v'' @ ds @ ''.py'' @ [newline]"
    then have "k = a @ p @ ''_v'' @ ds @ ''.py'' @ [newline]" unfolding k by simp
    then show ?thesis by (rule disjI2)
  qed
  then have "\<exists>a. k = a @ p @ ''_v'' @ ds @ ''.py'' \<or> k = a @ p @ ''_v'' @ ds @ ''.py'' @ [newline]"
    by blast
  with ds show ?thesis by (intro conjI)
qed

lemma script_rest_cases:
  assumes "r = ''.py'' \<or> r = ''.py'' @ [newline]" "r' = ''.py'' \<or> r' = ''.py'' @ [newline]"
    and "x @ r = y @ r'"
  shows "r = r'"
proof -
  have lr: "last (z @ r) = last r" "last (z @ r') = last r'" for z
    using assms(1,2) by auto
  have "last (x @ r) = last (y @ r')"
    using assms(3) by simp
  then have "last r = last r'"
    by (simp only: lr)
  then show ?thesis using assms(1,2) by (auto simp: newline_def)
qed

lemma match_script_version_unique:
  assumes m: "match_script_version p b' = Some g'"
    and r: "r = ''.py'' \<or> r = ''.py'' @ [newline]"
    and ds: "\<forall>c\<in>set ds. is_digit c"
    and eq: "a0 @ p @ ''_v'' @ ds @ r = a' @ b'"
  shows "g' = ds"
proof -
  note d = match_script_version_D[OF m]
  have g': "\<forall>c\<in>set g'. is_digit c"
    by (rule conjunct1[OF conjunct2[OF d]])
  have b0: "b' = p @ ''_v'' @ g' @ ''.py'' \<or> b' = p @ ''_v'' @ g' @ ''.py'' @ [newline]"
    by (rule conjunct2[OF conjunct2[OF d]])
  define r' where "r' = (if b' = p @ ''_v'' @ g' @ ''.py'' then ''.py'' else ''.py'' @ [newline])"
  have r': "r' = ''.py'' \<or> r' = ''.py'' @ [newline]"
    unfolding r'_def by simp
  have b': "b' = p @ ''_v'' @ g' @ r'"
    using b0 unfolding r'_def by auto
  have eq2: "((a0 @ p) @ ''_v'' @ ds) @ r = ((a' @ p) @ ''_v'' @ g') @ r'"
    using eq unfolding b' by simp
  have "r = r'" using r r' eq2 by (rule script_rest_cases)
  then have "(a0 @ p) @ ''_v'' @ ds = (a' @ p) @ ''_v'' @ g'"
    using eq2 by (simp only: append_same_eq)
  then have "ds = g'"
    using ds g' by (rule trailing_digits_unique)
  then show "g' = ds" by simp
qed

lemma re_search_script_version_I:
  assumes ds: "ds \<noteq> []" "\<forall>c\<in>set ds. is_digit c"
    and r: "r = ''.py'' \<or> r = ''.py'' @ [newline]"
  shows "re_search (match_script_version p) (a0 @ p @ ''_v'' @ ds @ r) = Some ds"
proof -
  have m0: "match_script_version p (p @ ''_v'' @ ds @ r) = Some ds"
    unfolding match_script_version_iff using ds r by simp
  have "re_search (match_script_version p) (a0 @ (p @ ''_v'' @ ds @ r)) = Some ds"
    using m0
  proof (rule re_search_unique)
    fix a' b' g'
    assume eq: "a0 @ p @ ''_v'' @ ds @ r = a' @ b'"
      and m: "match_script_version p b' = Some g'"
    show "g' = ds" using m r ds(2) eq by (rule match_script_version_unique)
  qed
  then show ?thesis by simp
qed

lemma re_search_script_version_iff:
  "re_search (match_script_version p) k = Some ds \<longleftrightarrow>
     ds \<noteq> [] \<and> (\<forall>c\<in>set ds. is_digit c) \<and>
     (\<exists>a. k = a @ p @ ''_v'' @ ds @ ''.py'' \<or> k = a @ p @ ''_v'' @ ds @ ''.py'' @ [newline])"
  (is "?L \<longleftrightarrow> ?R")
proof
  assume ?L
  then show ?R by (rule re_search_script_version_D)
next
  assume a: ?R
  then have ds: "ds \<noteq> []" "\<forall>c\<in>set ds. is_digit c" by simp_all
  from a obtain a0 where
    k0: "k = a0 @ p @ ''_v'' @ ds @ ''.py'' \<or> k = a0 @ p @ ''_v'' @ ds @ ''.py'' @ [newline]"
    by auto
  then show ?L
  proof
    assume "k = a0 @ p @ ''_v'' @ ds @ ''.py''"
    then show ?L using re_search_script_version_I[OF ds, of "''.py''" p a0] by simp
  next
    assume "k = a0 @ p @ ''_v'' @ ds @ ''.py'' @ [newline]"
    then show ?L using re_search_script_version_I[OF ds, of "''.py'' @ [newline]" p a0] by simp
  qed
qed

lemma re_search_script_key:
  "re_search (match_script_version p) (script_key p (int n)) = Some (str_nat n)"
proof -
  have "script_key p (int n) = (''input/'' @ p @ ''/'') @ p @ ''_v'' @ str_nat n @ ''.py''"
    by (simp add: script_key_def str_int_nat)
  then have "\<exists>a. script_key p (int n) = a @ p @ ''_v'' @ str_nat n @ ''.py'' \<or>
                 script_key p (int n) = a @ p @ ''_v'' @ str_nat n @ ''.py'' @ [newline]"
    by blast
  then show ?thesis
    unfolding re_search_script_version_iff using str_nat_digits[of n] by simp
qed


subsection \<open>The next version\<close>

lemma set_listed_versions:
  "set (listed_versions p ks) =
     {int (int_of_digits g) | k g. k \<in> set ks \<and> re_search (match_script_version p) k = Some g}"
proof (induction ks)
  case Nil
  then show ?case by (simp add: listed_versions_def)
next
  case (Cons a ks)
  have "listed_versions p (a # ks) =
     (case re_search (match_script_version p) a of
        Some g \<Rightarrow> [int (int_of_digits g)] | None \<Rightarrow> []) @ listed_versions p ks"
    by (simp add: listed_versions_def)
  then show ?case
    using Cons.IH by (cases "re_search (match_script_version p) a") auto
qed


subsection \<open>Script keys in key order\<close>

lemma script_key_inj: "script_key p (int m) = script_key p (int n) \<Longrightarrow> m = n"
proof -
  assume "script_key p (int m) = script_key p (int n)"
  then have "Some (str_nat m) = Some (str_nat n)"
    using re_search_script_key[of p m] re_search_script_key[of p n] by simp
  then have "int_of_digits (str_nat m) = int_of_digits (str_nat n)" by simp
  then show "m = n" by (simp add: int_of_digits_str_nat)
qed

lemma append_less_iff: "pre @ x < pre @ y \<longleftrightarrow> x < (y :: 'a::linorder list)"
  by (induction pre) simp_all

lemma script_key_less:
  "script_key p (int m) < script_key p (int n) \<longleftrightarrow> str_nat m @ ''.py'' < str_nat n @ ''.py''"
proof -
  have "script_key p (int i) = (''input/'' @ p @ ''/'' @ p @ ''_v'') @ str_nat i @ ''.py''" for i
    by (simp add: script_key_def str_int_nat)
  then show ?thesis by (simp only: append_less_iff)
qed

lemma sequential_keys:
  "map fst (sequential_store p n) = map (\<lambda>i. script_key p (int i)) [1..<Suc n]"
  unfolding sequential_store_def by (simp add: comp_def del: upt_Suc)

lemma sequential_keys_prefix:
  "filter (prefix (''input/'' @ p @ ''/'')) (map (\<lambda>i. script_key p (int i)) ns) =
   map (\<lambda>i. script_key p (int i)) ns"
  by (induction ns) (simp_all add: script_key_def)

lemma sequential_keys_distinct:
  "distinct ns \<Longrightarrow> distinct (map (\<lambda>i. script_key p (int i)) ns)"
  unfolding distinct_map using script_key_inj by (auto simp: inj_on_def)

text \<open>
  When the bucket holds the scripts of the versions 1 to \<open>N\<close> and \<open>max_keys\<close> of them
  have keys below the keys of all the others, \<open>get_next_version\<close> answers from these
  alone.
\<close>

lemma get_next_version_first_page:
  assumes sub: "A \<subseteq> {1..N}" and c: "card A = max_keys"
    and below: "\<And>a b. a \<in> A \<Longrightarrow> b \<in> {1..N} \<Longrightarrow> b \<notin> A \<Longrightarrow>
                  str_nat a @ ''.py'' < str_nat b @ ''.py''"
  shows "get_next_version (example_service (sequential_store p N)) p = int (Max A) + 1"
proof -
  define ks where "ks = map (\<lambda>i. script_key p (int i)) [1..<Suc N]"
  define page where "page = take max_keys (sort (remdups ks))"
  have set_ks: "set ks = (\<lambda>i. script_key p (int i)) ` {1..N}"
    unfolding ks_def by (simp only: set_map set_upt atLeastLessThanSuc_atLeastAtMost)
  have d: "distinct ks" unfolding ks_def by (rule sequential_keys_distinct) simp
  have fin: "finite A" using sub finite_subset by blast
  have ne: "A \<noteq> {}" using c by (auto simp: max_keys_def)
  have inj: "inj_on (\<lambda>i. script_key p (int i)) A"
    using script_key_inj by (auto simp: inj_on_def)
  have "set (take max_keys (sort ks)) = (\<lambda>i. script_key p (int i)) ` A"
  proof (rule page_least[OF d])
    show "(\<lambda>i. script_key p (int i)) ` A \<subseteq> set ks" unfolding set_ks using sub by blast
    show "card ((\<lambda>i. script_key p (int i)) ` A) = max_keys"
      using c card_image[OF inj] by simp
    fix a b
    assume a: "a \<in> (\<lambda>i. script_key p (int i)) ` A" and b: "b \<in> set ks"
      and nb: "b \<notin> (\<lambda>i. script_key p (int i)) ` A"
    obtain i where i: "i \<in> A" "a = script_key p (int i)" using a by blast
    obtain j where j: "j \<in> {1..N}" "b = script_key p (int j)" using b unfolding set_ks by blast
    have "j \<notin> A" using nb j(2) by blast
    then show "a < b" unfolding i(2) j(2) script_key_less using below i(1) j(1) by blast
  qed
  then have sp: "set page = (\<lambda>i. script_key p (int i)) ` A"
    unfolding page_def using d by (simp only: distinct_remdups_id)
  have vs: "set (listed_versions p page) = int ` A"
  proof (intro set_eqI iffI)
    fix x
    assume "x \<in> set (listed_versions p page)"
    then obtain k g where k: "k \<in> set page"
      and g: "re_search (match_script_version p) k = Some g" and x: "x = int (int_of_digits g)"
      unfolding set_listed_versions by blast
    obtain i where i: "i \<in> A" "k = script_key p (int i)" using k unfolding sp by blast
    have "g = str_nat i" using g unfolding i(2) by (simp add: re_search_script_key)
    then show "x \<in> int ` A" using i(1) x by (simp add: int_of_digits_str_nat)
  next
    fix x
    assume "x \<in> int ` A"
    then obtain i where i: "i \<in> A" "x = int i" by blast
    have "script_key p (int i) \<in> set page" unfolding sp using i(1) by blast
    moreover have "x = int (int_of_digits (str_nat i))"
      using i(2) by (simp add: int_of_digits_str_nat)
    ultimately show "x \<in> set (listed_versions p page)"
      unfolding set_listed_versions using re_search_script_key[of p i] by blast
  qed
  have nev: "listed_versions p page \<noteq> []" using vs ne by auto
  have "mono int" by (simp add: mono_def)
  then have mx: "Max (int ` A) = int (Max A)"
    using mono_Max_commute[of int A] fin ne by simp
  have "set ks \<noteq> {}" unfolding set_ks using sub ne by blast
  then have kne: "ks \<noteq> []" by auto
  have flt: "filter (prefix (''input/'' @ p @ ''/''))
               (map fst (objects (example_service (sequential_store p N)))) = ks"
    unfolding ks_def
    by (simp only: example_service_def s3_service.select_convs sequential_keys
        sequential_keys_prefix)
  have l: "list_objects_v2 (example_service (sequential_store p N)) (''input/'' @ p @ ''/'') =
           Inr (Some page)"
  proof -
    have "fault (example_service (sequential_store p N)) ListObjectsV2 = None"
      by (simp only: example_service_def s3_service.select_convs)
    from list_objects_v2_page[OF this, of "''input/'' @ p @ ''/''"] show ?thesis
      unfolding flt page_def using kne by (simp only: if_False)
  qed
  have cfg: "s3_client (example_service (sequential_store p N))"
    "aws_bucket_name (example_service (sequential_store p N)) \<noteq> []"
    by (simp_all only: example_service_def s3_service.select_convs) simp
  have "get_next_version (example_service (sequential_store p N)) p =
        (if listed_versions p page = [] then 1 else Max (set (listed_versions p page)) + 1)"
    unfolding get_next_version_def l listed_versions_def Let_def using cfg
    by (simp only: simp_thms if_False sum.case option.case)
  then show ?thesis using nev vs mx by simp
qed

subsection \<open>A namespace that fits in one page\<close>

text \<open>
  While the namespace of the job holds at most \<open>max_keys\<close> keys, \<open>get_next_version\<close>
  returns the greatest version among its keys that end in \<open><job>_v<digits>.py\<close> (the
  pattern of the source, whose \<open>$\<close> also accepts one final newline), plus one, or 1 when
  there is no such key.
\<close>

lemma get_next_version_within_page:
  assumes "s3_client s" "aws_bucket_name s \<noteq> []" "fault s ListObjectsV2 = None"
    and bound: "card {k \<in> fst ` set (objects s). prefix (''input/'' @ p @ ''/'') k} \<le> max_keys"
  shows "get_next_version s p =
     (let V = {int (int_of_digits ds) | k ds. k \<in> fst ` set (objects s) \<and>
                  prefix (''input/'' @ p @ ''/'') k \<and>
                  ds \<noteq> [] \<and> (\<forall>c\<in>set ds. is_digit c) \<and>
                  (\<exists>a. k = a @ p @ ''_v'' @ ds @ ''.py'' \<or>
                       k = a @ p @ ''_v'' @ ds @ ''.py'' @ [newline])}
      in if V = {} then 1 else Max V + 1)"
proof -
  let ?pre = "''input/'' @ p @ ''/''"
  let ?K = "{k \<in> fst ` set (objects s). prefix ?pre k}"
  let ?V = "{int (int_of_digits g) | k g. k \<in> ?K \<and>
               re_search (match_script_version p) k = Some g}"
  have K: "set (filter (prefix ?pre) (map fst (objects s))) = ?K" by auto
  have "get_next_version s p = (if ?V = {} then 1 else Max ?V + 1)"
  proof (cases "filter (prefix ?pre) (map fst (objects s)) = []")
    case True
    then have "?K = {}" using K by simp
    then have "?V = {}" by blast
    moreover have "list_objects_v2 s ?pre = Inr None"
      using True by (simp only: list_objects_v2_page[OF assms(3)] if_True simp_thms)
    then have "get_next_version s p = 1"
      unfolding get_next_version_def using assms(1,2) by simp
    ultimately show ?thesis by (simp only: if_True simp_thms)
  next
    case False
    define page where
      "page = take max_keys (sort (remdups (filter (prefix ?pre) (map fst (objects s)))))"
    have l: "list_objects_v2 s ?pre = Inr (Some page)"
      using False unfolding page_def
      by (simp only: list_objects_v2_page[OF assms(3)] if_False simp_thms)
    have "set page = ?K"
      using list_objects_v2_all[OF assms(3) l bound] .
    then have vs: "set (listed_versions p page) = ?V"
      unfolding set_listed_versions by simp
    have "get_next_version s p =
        (if listed_versions p page = [] then 1 else Max (set (listed_versions p page)) + 1)"
      unfolding get_next_version_def l listed_versions_def Let_def using assms(1,2)
      by (simp only: simp_thms if_False sum.case option.case)
    moreover have "(listed_versions p page = []) = (?V = {})"
      using vs by (metis set_empty)
    ultimately show ?thesis using vs by (simp only:)
  qed
  moreover have "?V = {int (int_of_digits ds) | k ds. k \<in> fst ` set (objects s) \<and>
                  prefix (''input/'' @ p @ ''/'') k \<and>
                  ds \<noteq> [] \<and> (\<forall>c\<in>set ds. is_digit c) \<and>
                  (\<exists>a. k = a @ p @ ''_v'' @ ds @ ''.py'' \<or>
                       k = a @ p @ ''_v'' @ ds @ ''.py'' @ [newline])}"
    unfolding re_search_script_version_iff by blast
  ultimately show ?thesis unfolding Let_def by (simp only:)
qed

lemma fresh_inv_next:
  assumes "fresh_inv p n s" "n \<le> max_keys"
  shows "get_next_version s p = int n + 1"
proof -
  let ?pre = "''input/'' @ p @ ''/''"
  have c: "s3_client s" "aws_bucket_name s \<noteq> []" "fault s ListObjectsV2 = None"
    and keys: "{k \<in> fst ` set (objects s). prefix ?pre k} =
       (\<lambda>i. script_key p (int i)) ` {1..n}"
    using assms(1) by (simp_all add: fresh_inv_def)
  have "card ((\<lambda>i. script_key p (int i)) ` {1..n}) \<le> card {1..n}"
    by (rule card_image_le) simp
  then have bound: "card {k \<in> fst ` set (objects s). prefix ?pre k} \<le> max_keys"
    unfolding keys using assms(2) by simp
  let ?V = "{int (int_of_digits ds) | k ds. k \<in> fst ` set (objects s) \<and>
                  prefix ?pre k \<and>
                  ds \<noteq> [] \<and> (\<forall>c\<in>set ds. is_digit c) \<and>
                  (\<exists>a. k = a @ p @ ''_v'' @ ds @ ''.py'' \<or>
                       k = a @ p @ ''_v'' @ ds @ ''.py'' @ [newline])}"
  have "?V = {int (int_of_digits g) | k g.
                 k \<in> {k \<in> fst ` set (objects s). prefix ?pre k} \<and>
                 re_search (match_script_version p) k = Some g}"
    unfolding re_search_script_version_iff by blast
  also have "\<dots> = {int (int_of_digits g) | k g. k \<in> (\<lambda>i. script_key p (int i)) ` {1..n} \<and>
                  re_search (match_script_version p) k = Some g}"
    unfolding keys ..
  also have "\<dots> = int ` {1..n}"
  proof (intro set_eqI iffI)
    fix x
    assume "x \<in> {int (int_of_digits g) | k g. k \<in> (\<lambda>i. script_key p (int i)) ` {1..n} \<and>
                  re_search (match_script_version p) k = Some g}"
    then obtain i g where i: "i \<in> {1..n}"
      and g: "re_search (match_script_version p) (script_key p (int i)) = Some g"
      and x: "x = int (int_of_digits g)" by auto
    have "g = str_nat i" using g by (simp add: re_search_script_key)
    then show "x \<in> int ` {1..n}" using i x by (simp add: int_of_digits_str_nat)
  next
    fix x
    assume "x \<in> int ` {1..n}"
    then obtain i where i: "i \<in> {1..n}" and x: "x = int i" by auto
    have "x = int (int_of_digits (str_nat i))" using x by (simp add: int_of_digits_str_nat)
    moreover have "script_key p (int i) \<in> (\<lambda>i. script_key p (int i)) ` {1..n}"
      using i by blast
    ultimately show "x \<in> {int (int_of_digits g) | k g.
                  k \<in> (\<lambda>i. script_key p (int i)) ` {1..n} \<and>
                  re_search (match_script_version p) k = Some g}"
      using re_search_script_key[of p i] by blast
  qed
  finally have V: "?V = int ` {1..n}" .
  note nv = get_next_version_within_page[OF c bound, unfolded Let_def V]
  show ?thesis
  proof (cases "n = 0")
    case True
    then show ?thesis unfolding nv by simp
  next
    case False
    have "Max (int ` {1..n}) = int n"
    proof (rule Max_eqI)
      show "finite (int ` {1..n})" by simp
      show "\<And>y. y \<in> int ` {1..n} \<Longrightarrow> y \<le> int n" by auto
      show "int n \<in> int ` {1..n}" using False by auto
    qed
    moreover have "int ` {1..n} \<noteq> {}" using False by auto
    ultimately show ?thesis unfolding nv by simp
  qed
qed

lemma prefix_script_key: "prefix (''input/'' @ p @ ''/'') (script_key p v)"
  by (simp add: script_key_def)

lemma fresh_inv_upload:
  assumes "fresh_inv p n s" "n \<le> max_keys"
  shows "fst (upload_script s code p) = UploadSuccess (script_key p (int (Suc n))) (int (Suc n))
       \<and> fresh_inv p (Suc n) (snd (upload_script s code p))"
proof -
  have c: "s3_client s" "aws_bucket_name s \<noteq> []" "fault s ListObjectsV2 = None"
    "fault s PutObject = None"
    and keys: "{k \<in> fst ` set (objects s). prefix (''input/'' @ p @ ''/'') k} =
       (\<lambda>i. script_key p (int i)) ` {1..n}"
    using assms(1) by (simp_all add: fresh_inv_def)
  have nv: "get_next_version s p = int (Suc n)"
    using fresh_inv_next[OF assms] by simp
  have up: "upload_script s code p =
     (UploadSuccess (script_key p (int (Suc n))) (int (Suc n)),
      s\<lparr>objects := AList.update (script_key p (int (Suc n))) (Text code) (objects s)\<rparr>)"
    using c by (simp add: upload_script_def put_object_def nv Let_def del: of_nat_Suc)
  have "{k \<in> fst ` set (AList.update (script_key p (int (Suc n))) (Text code) (objects s)).
           prefix (''input/'' @ p @ ''/'') k} =
        insert (script_key p (int (Suc n)))
          {k \<in> fst ` set (objects s). prefix (''input/'' @ p @ ''/'') k}"
    using prefix_script_key[of p "int (Suc n)"] by (auto simp: AList.dom_update simp del: of_nat_Suc)
  also have "\<dots> = (\<lambda>i. script_key p (int i)) ` {1..Suc n}"
    unfolding keys by (auto simp: atLeastAtMostSuc_conv simp del: of_nat_Suc)
  finally show ?thesis
    unfolding up using c by (simp add: fresh_inv_def del: of_nat_Suc)
qed

text \<open>Sequential submissions to a job with no key get the versions 1, 2, ..., \<open>N\<close> in this
  order, as long as every listing fits in one page.\<close>

lemma fresh_inv_submit_all:
  assumes "fresh_inv p n s" "n + length codes \<le> Suc max_keys"
  shows "fst (submit_all s p codes) =
     map (\<lambda>i. UploadSuccess (script_key p (int i)) (int i)) [Suc n..<Suc (n + length codes)]"
  using assms
proof (induction codes arbitrary: n s)
  case Nil
  then show ?case by simp
next
  case (Cons code codes)
  have n: "n \<le> max_keys" using Cons.prems(2) by simp
  note u = fresh_inv_upload[OF Cons.prems(1) n, of code]
  have "Suc n + length codes \<le> Suc max_keys" using Cons.prems(2) by simp
  then have ih: "fst (submit_all (snd (upload_script s code p)) p codes) =
     map (\<lambda>i. UploadSuccess (script_key p (int i)) (int i))
       [Suc (Suc n)..<Suc (Suc n + length codes)]"
    using Cons.IH[OF conjunct2[OF u]] by blast
  have step: "fst (submit_all s p (code # codes)) =
     fst (upload_script s code p) # fst (submit_all (snd (upload_script s code p)) p codes)"
    by (simp add: split_beta)
  have "[Suc n..<Suc (n + length (code # codes))] =
        Suc n # [Suc (Suc n)..<Suc (Suc n + length codes)]"
    by (subst upt_rec) simp
  then show ?case
    unfolding step ih conjunct1[OF u] by (simp del: of_nat_Suc upt_Suc)
qed

lemma sequential_submissions_within_page:
  assumes "s3_client s" "aws_bucket_name s \<noteq> []" "fault s ListObjectsV2 = None"
    and "fault s PutObject = None"
    and "filter (prefix (''input/'' @ p @ ''/'')) (map fst (objects s)) = []"
    and "length codes \<le> Suc max_keys"
  shows "fst (submit_all s p codes) =
     map (\<lambda>i. UploadSuccess (script_key p (int i)) (int i)) [1..<Suc (length codes)]"
proof -
  have "{k \<in> fst ` set (objects s). prefix (''input/'' @ p @ ''/'') k} =
        set (filter (prefix (''input/'' @ p @ ''/'')) (map fst (objects s)))"
    by auto
  then have "{k \<in> fst ` set (objects s). prefix (''input/'' @ p @ ''/'') k} = {}"
    unfolding assms(5) by simp
  then have "fresh_inv p 0 s"
    using assms(1-4) by (simp add: fresh_inv_def)
  from fresh_inv_submit_all[OF this, of codes] assms(6) show ?thesis by simp
qed

subsection \<open>The bucket with the versions 1 to 1900\<close>

lemma first_page_set:
  "{n. in_first_page n} = {1} \<union> {10..18} \<union> {100..189} \<union> {1000..1899}"
  unfolding in_first_page_def by auto

lemma first_page_card: "card {n. in_first_page n} = max_keys"
proof -
  have "card ({1::nat} \<union> {10..18}) = 10"
    by (subst card_Un_disjoint) auto
  then have "card ({1::nat} \<union> {10..18} \<union> {100..189}) = 100"
    by (subst card_Un_disjoint) auto
  then have "card ({1::nat} \<union> {10..18} \<union> {100..189} \<union> {1000..1899}) = 1000"
    by (subst card_Un_disjoint) auto
  then show ?thesis unfolding first_page_set max_keys_def .
qed

lemma first_page_Max: "Max {n. in_first_page n} = 1899"
proof (rule Max_eqI)
  show "finite {n. in_first_page n}" unfolding first_page_set by simp
  show "\<And>y. y \<in> {n. in_first_page n} \<Longrightarrow> y \<le> 1899" by (auto simp: in_first_page_def)
  show "1899 \<in> {n. in_first_page n}" by (simp add: in_first_page_def)
qed

lemma digit_chars:
  "digit_char 0 = CHR ''0''" "digit_char (Suc 0) = CHR ''1''" "digit_char 2 = CHR ''2''"
  "digit_char 3 = CHR ''3''" "digit_char 4 = CHR ''4''" "digit_char 5 = CHR ''5''"
  "digit_char 6 = CHR ''6''" "digit_char 7 = CHR ''7''" "digit_char 8 = CHR ''8''"
  "digit_char 9 = CHR ''9''"
  by code_simp+

lemma str_nat_numeral:
  "str_nat (numeral k) =
     (if (numeral k :: nat) < 10 then [digit_char (numeral k)]
      else str_nat (numeral k div 10) @ [digit_char (numeral k mod 10)])"
  by (subst str_nat.simps) simp

lemma str_nat_1: "str_nat (Suc 0) = ''1''"
  by (subst str_nat.simps) (simp add: digit_chars)

lemma first_page_order:
  "list_all (\<lambda>n. if in_first_page n then str_nat n @ ''.py'' \<le> ''1899.py''
                  else ''1899.py'' < str_nat n @ ''.py'') [2..<1901]"
  by (simp add: in_first_page_def str_nat_numeral str_nat_1 digit_chars less_char_def
      less_eq_char_def)

lemma first_page_below:
  assumes "in_first_page a" "b \<in> {1..1900}" "\<not> in_first_page b"
  shows "str_nat a @ ''.py'' < str_nat b @ ''.py''"
proof -
  have all: "\<forall>n\<in>{2..<1901}. if in_first_page n then str_nat n @ ''.py'' \<le> ''1899.py''
                  else ''1899.py'' < str_nat n @ ''.py''"
    using first_page_order by (simp only: list_all_iff set_upt)
  have one: "str_nat 1 @ ''.py'' \<le> ''1899.py''"
    by (simp add: str_nat_1 less_char_def)
  have "a = 1 \<or> a \<in> {2..<1901}" using assms(1) by (auto simp: in_first_page_def)
  then have a: "str_nat a @ ''.py'' \<le> ''1899.py''"
    using all one assms(1) by auto
  have "b \<noteq> 1" using assms(3) by (auto simp: in_first_page_def)
  then have "b \<in> {2..<1901}" using assms(2) by auto
  then have "''1899.py'' < str_nat b @ ''.py''"
    using all assms(3) by auto
  then show ?thesis using a by simp
qed

lemma sequential_store_lookup:
  "i \<in> set ns \<Longrightarrow> map_of (map (\<lambda>i. (f i, b)) ns) (f i) = Some b"
  by (induction ns) auto

text \<open>
  C8, as stated, fails, and the code departs from its docstring (\<open>returns highest version
  + 1\<close>): \<open>get_next_version\<close> reads one page of the listing, the first \<open>max_keys\<close> keys in
  key order. In a bucket that holds the scripts of the versions 1 to 1900 of a job, the
  page holds the versions 1, 10 to 18, 100 to 189 and 1000 to 1899, so the next version
  is 1900 again, and the submission replaces the script stored as version 1900.
\<close>

theorem next_version_repeats_beyond_first_page:
  "get_next_version (example_service (sequential_store p 1900)) p = 1900
   \<and> map_of (sequential_store p 1900) (script_key p 1900) = Some (Text ''print(1)'')
   \<and> upload_script (example_service (sequential_store p 1900)) code p =
       (UploadSuccess (script_key p 1900) 1900,
        example_service
          (AList.update (script_key p 1900) (Text code) (sequential_store p 1900)))"
proof -
  have sub: "{n. in_first_page n} \<subseteq> {1..1900}"
    by (auto simp: in_first_page_def)
  have nv: "get_next_version (example_service (sequential_store p 1900)) p = 1900"
    using get_next_version_first_page[OF sub first_page_card, of p] first_page_below
    by (simp add: first_page_Max)
  have "(1900::nat) \<in> set [1..<Suc 1900]" by (simp only: set_upt) simp
  then have "map_of (map (\<lambda>i. (script_key p (int i), Text ''print(1)'')) [1..<Suc 1900])
               (script_key p (int 1900)) = Some (Text ''print(1)'')"
    by (rule sequential_store_lookup)
  then have old: "map_of (sequential_store p 1900) (script_key p 1900) = Some (Text ''print(1)'')"
    unfolding sequential_store_def by (simp only: of_nat_numeral)
  have up: "upload_script (example_service (sequential_store p 1900)) code p =
       (UploadSuccess (script_key p 1900) 1900,
        example_service
          (AList.update (script_key p 1900) (Text code) (sequential_store p 1900)))"
    unfolding upload_script_def nv by (simp add: example_service_def put_object_def Let_def)
  show ?thesis using nv old up by (simp only: simp_thms)
qed

theorem next_version_repeats_beyond_first_page_witness:
  "get_next_version (example_service (sequential_store ''demo'' 1900)) ''demo'' = 1900
   \<and> fst (upload_script (example_service (sequential_store ''demo'' 1900)) ''print(2)''
          ''demo'') = UploadSuccess ''input/demo/demo_v1900.py'' 1900"
proof -
  have k: "script_key ''demo'' 1900 = ''input/demo/demo_v1900.py''"
    by (simp add: script_key_def str_int_def str_nat_numeral str_nat_1 digit_chars)
  show ?thesis
    using next_version_repeats_beyond_first_page[of "''demo''" "''print(2)''"]
    unfolding k by (simp only: fst_conv simp_thms)
qed

text \<open>
  C10. When the listing raises (\<open>ClientError\<close> or any other exception),
  \<open>get_next_version\<close> returns 1 instead of propagating the error; a submission made
  then is allocated version 1 and its text replaces whatever script was stored as
  version 1.
\<close>

theorem next_version_swallows_listing_error:
  assumes "s3_client s" "aws_bucket_name s \<noteq> []" "fault s ListObjectsV2 = Some e"
  shows "get_next_version s p = 1
   \<and> (fault s PutObject = None \<longrightarrow>
        upload_script s code p =
          (UploadSuccess (script_key p 1) 1,
           s\<lparr>objects := AList.update (script_key p 1) (Text code) (objects s)\<rparr>)
        \<and> map_of (objects (snd (upload_script s code p))) (script_key p 1) = Some (Text code))"
proof -
  have nv: "get_next_version s p = 1"
    using assms by (cases e) (simp_all add: get_next_version_def list_objects_v2_def)
  have "upload_script s code p =
          (UploadSuccess (script_key p 1) 1,
           s\<lparr>objects := AList.update (script_key p 1) (Text code) (objects s)\<rparr>)"
    if "fault s PutObject = None"
    using assms that by (simp add: upload_script_def nv put_object_def Let_def)
  then show ?thesis using nv by (auto simp: update_Some_unfold)
qed

theorem next_version_swallows_listing_error_witness:
  "s3_client (faulty_listing_service
       [(''input/demo/demo_v1.py'', Text ''old script''), (''input/demo/demo_v2.py'', Text ''b'')])
   \<and> aws_bucket_name (faulty_listing_service
       [(''input/demo/demo_v1.py'', Text ''old script''), (''input/demo/demo_v2.py'', Text ''b'')])
       \<noteq> []
   \<and> fault (faulty_listing_service
       [(''input/demo/demo_v1.py'', Text ''old script''), (''input/demo/demo_v2.py'', Text ''b'')])
       ListObjectsV2 = Some ClientError
   \<and> fault (faulty_listing_service
       [(''input/demo/demo_v1.py'', Text ''old script''), (''input/demo/demo_v2.py'', Text ''b'')])
       PutObject = None
   \<and> get_next_version (faulty_listing_service
       [(''input/demo/demo_v1.py'', Text ''old script''), (''input/demo/demo_v2.py'', Text ''b'')])
       ''demo'' = 1
   \<and> map_of (objects (snd (upload_script (faulty_listing_service
       [(''input/demo/demo_v1.py'', Text ''old script''), (''input/demo/demo_v2.py'', Text ''b'')])
       ''new script'' ''demo''))) ''input/demo/demo_v1.py'' = Some (Text ''new script'')"
proof -
  let ?s = "faulty_listing_service
       [(''input/demo/demo_v1.py'', Text ''old script''), (''input/demo/demo_v2.py'', Text ''b'')]"
  have h1: "s3_client ?s" and h2: "aws_bucket_name ?s \<noteq> []"
    and h3: "fault ?s ListObjectsV2 = Some ClientError" and h4: "fault ?s PutObject = None"
    by (simp_all add: faulty_listing_service_def)
  have k: "script_key ''demo'' 1 = ''input/demo/demo_v1.py''"
    by code_simp
  have "get_next_version ?s ''demo'' = 1
     \<and> map_of (objects (snd (upload_script ?s ''new script'' ''demo'')))
          (script_key ''demo'' 1) = Some (Text ''new script'')"
    using next_version_swallows_listing_error[OF h1 h2 h3, of "''demo''" "''new script''"] h4
    by blast
  then show ?thesis
    using h1 h2 h3 h4 unfolding k by blast
qed

section \<open>Properties of the output listing and of the ProcessingMonitor\<close>

lemma split_on_not_Nil: "split_on sep s \<noteq> []"
  by (induction s) (auto split: list.splits)

lemma output_entry_Some:
  assumes "output_entry k = Some f"
  shows "of_key f = k \<and> of_filename f = last (split_on CHR ''/'' k)
       \<and> of_filename f \<noteq> ''metadata.json''
       \<and> list_ex (\<lambda>ext. suffix (upper ext) (upper (of_filename f))) supported_extensions"
  using assms unfolding output_entry_def Let_def
  by (auto split: if_splits)

lemma output_entry_metadata:
  "last (split_on CHR ''/'' k) = ''metadata.json'' \<Longrightarrow> output_entry k = None"
  by (simp add: output_entry_def)

lemma set_sort_by_version:
  "sort_by_version fs = Inr gs \<Longrightarrow> set gs = set fs"
  by (auto simp: sort_by_version_def split: if_splits)

text \<open>The prefix that \<open>check_output_files\<close> lists.\<close>

lemma check_output_files_subset:
  assumes "f \<in> set (check_output_files s p v)"
  shows "\<exists>k \<in> fst ` set (objects s). output_entry k = Some f \<and>
           prefix (case v of None \<Rightarrow> ''output/'' @ p @ ''/''
                   | Some n \<Rightarrow> if n \<noteq> 0 then output_prefix p n else ''output/'' @ p @ ''/'') k"
proof -
  define pre where "pre = (case v of None \<Rightarrow> ''output/'' @ p @ ''/''
                   | Some n \<Rightarrow> if n \<noteq> 0 then output_prefix p n else ''output/'' @ p @ ''/'')"
  have pre': "(case v of None \<Rightarrow> ''output/'' @ p @ ''/''
               | Some n \<Rightarrow> if n \<noteq> 0 then ''output/'' @ p @ ''/v'' @ str_int n @ ''/''
                          else ''output/'' @ p @ ''/'') = pre"
    unfolding pre_def output_prefix_def by (simp split: option.splits)
  have conf: "s3_client s" "aws_bucket_name s \<noteq> []"
    using assms by (auto simp: check_output_files_def split: if_splits)
  have ne: "check_output_files s p v \<noteq> []" using assms by auto
  obtain contents where l: "list_objects_v2 s pre = Inr (Some contents)"
  proof (cases "list_objects_v2 s pre")
    case (Inl e)
    then have "check_output_files s p v = []"
      unfolding check_output_files_def Let_def pre' by (cases e) simp_all
    then show ?thesis using ne by simp
  next
    case (Inr r)
    show ?thesis
    proof (cases r)
      case None
      then have "check_output_files s p v = []"
        unfolding check_output_files_def Let_def pre' using Inr by simp
      then show ?thesis using ne by simp
    next
      case (Some contents)
      then show ?thesis using Inr that by simp
    qed
  qed
  have "set (check_output_files s p v) \<subseteq> set (List.map_filter output_entry contents)"
  proof (cases "sort_by_version (List.map_filter output_entry contents)")
    case (Inl e)
    then show ?thesis
      unfolding check_output_files_def Let_def pre' using l conf by simp
  next
    case (Inr gs)
    then show ?thesis
      unfolding check_output_files_def Let_def pre' using l conf set_sort_by_version[OF Inr]
      by simp
  qed
  then have f: "f \<in> set (List.map_filter output_entry contents)"
    using assms by blast
  have "set contents \<subseteq> {k \<in> fst ` set (objects s). prefix pre k}"
    using l by (rule list_objects_v2_subset)
  moreover obtain k where "k \<in> set contents" "output_entry k = Some f"
    using f by (auto simp: List.map_filter_def)
  ultimately show ?thesis unfolding pre_def[symmetric] by blast
qed

lemma check_output_files_fault:
  "fault s ListObjectsV2 = Some e \<Longrightarrow> check_output_files s p v = []"
  by (cases e) (simp_all add: check_output_files_def list_objects_v2_def Let_def)

lemma poll_loop_all_empty:
  assumes "\<forall>n. attempt < n \<and> n \<le> max_attempts \<longrightarrow> check n = Inr []"
    and "attempt \<le> max_attempts"
  shows "poll_loop check ts p attempt = (max_attempts, [])"
  using assms
proof (induction check ts p attempt rule: poll_loop.induct)
  case (1 check ts p attempt)
  show ?case
  proof (cases "attempt < max_attempts")
    case True
    then have c: "check (attempt + 1) = Inr []" using 1(3) by simp
    have "poll_loop check ts p (attempt + 1) = (max_attempts, [])"
      using 1(2)[OF True c] 1(3) True by simp
    then show ?thesis
      using True c by (subst poll_loop.simps) simp
  next
    case False
    then show ?thesis using 1(4) by (subst poll_loop.simps) simp
  qed
qed

lemma poll_task_all_empty:
  assumes "\<forall>n\<in>{1..max_attempts}. check n = Inr []"
  shows "poll_task check ts p = [MarkScriptProcessed [] ''timeout'' None, UpdateProject ''timeout'']"
proof -
  have "poll_loop check ts p 0 = (max_attempts, [])"
    using assms by (intro poll_loop_all_empty) auto
  then show ?thesis by (simp add: poll_task_def)
qed


lemma poll_loop_first_artifact:
  assumes "\<forall>n. attempt < n \<and> n < k \<longrightarrow> check n = Inr []"
    and "check k = Inr fs" and "fs \<noteq> []" and "attempt < k" and "k \<le> max_attempts"
  shows "poll_loop check ts p attempt =
     (k, [MarkScriptProcessed (map of_filename fs) ''aws-freecad-worker''
            (Some (p @ ''_info_'' @ ts k @ ''.log'')),
          UpdateProject ''completed''])"
  using assms
proof (induction check ts p attempt rule: poll_loop.induct)
  case (1 check ts p attempt)
  have lt: "attempt < max_attempts" using 1(6,7) by simp
  show ?case
  proof (cases "attempt + 1 = k")
    case True
    then show ?thesis
      using lt 1(4,5) by (subst poll_loop.simps) simp
  next
    case False
    then have c: "check (attempt + 1) = Inr []" using 1(3,6) by simp
    have "poll_loop check ts p (attempt + 1) =
     (k, [MarkScriptProcessed (map of_filename fs) ''aws-freecad-worker''
            (Some (p @ ''_info_'' @ ts k @ ''.log'')),
          UpdateProject ''completed''])"
      using 1(2)[OF lt c] 1(3,4,5,6,7) False by simp
    then show ?thesis
      using lt c by (subst poll_loop.simps) simp
  qed
qed

text \<open>
  The parts of C3 that hold: the first cycle with an artifact, when it comes before the
  last one, completes the task and no timeout is recorded; twenty empty cycles time out.
\<close>

lemma poll_task_completed_early:
  assumes "\<forall>n. 0 < n \<and> n < k \<longrightarrow> check n = Inr []"
    and "check k = Inr fs" and "fs \<noteq> []" and "0 < k" and "k < max_attempts"
  shows "poll_task check ts p =
     [MarkScriptProcessed (map of_filename fs) ''aws-freecad-worker''
        (Some (p @ ''_info_'' @ ts k @ ''.log'')),
      UpdateProject ''completed'']"
proof -
  have "poll_loop check ts p 0 =
     (k, [MarkScriptProcessed (map of_filename fs) ''aws-freecad-worker''
            (Some (p @ ''_info_'' @ ts k @ ''.log'')),
          UpdateProject ''completed''])"
    using assms by (intro poll_loop_first_artifact) auto
  then show ?thesis using assms(5) by (simp add: poll_task_def)
qed

lemma poll_task_completed_last:
  assumes "\<forall>n. 0 < n \<and> n < max_attempts \<longrightarrow> check n = Inr []"
    and "check max_attempts = Inr fs" and "fs \<noteq> []"
  shows "poll_task check ts p =
     [MarkScriptProcessed (map of_filename fs) ''aws-freecad-worker''
        (Some (p @ ''_info_'' @ ts max_attempts @ ''.log'')),
      UpdateProject ''completed'',
      MarkScriptProcessed [] ''timeout'' None, UpdateProject ''timeout'']"
proof -
  have "poll_loop check ts p 0 =
     (max_attempts, [MarkScriptProcessed (map of_filename fs) ''aws-freecad-worker''
            (Some (p @ ''_info_'' @ ts max_attempts @ ''.log'')),
          UpdateProject ''completed''])"
    using assms by (intro poll_loop_first_artifact) (auto simp: max_attempts_def)
  then show ?thesis by (simp add: poll_task_def)
qed

text \<open>
  C3: the code departs from the claim. When the first artifact is seen in the twentieth
  cycle, the loop is left with the counter at 20, and the timeout block after the loop runs
  as well: the task records the completion and then the timeout.
\<close>

theorem poll_completes_and_times_out_at_last_attempt:
  "poll_for_output_files
     (\<lambda>n. example_service
             (if n < 20 then [] else [(''output/demo/v1/model.stl'', Text ''solid'')]))
     (\<lambda>n. ''20250101_000000'') ''demo'' 1 =
   [MarkScriptProcessed [''model.stl''] ''aws-freecad-worker''
      (Some ''demo_info_20250101_000000.log''),
    UpdateProject ''completed'',
    MarkScriptProcessed [] ''timeout'' None,
    UpdateProject ''timeout'']"
  by code_simp

text \<open>
  C4, as stated, fails: a store error in a cycle is caught inside \<open>check_output_files\<close>,
  which returns the empty list, and the counter has been raised before the check. Twenty
  cycles in which the listing raises exhaust the budget, although the artifact is in
  the bucket all along and a twenty-first cycle would have found it.
\<close>

theorem store_error_cycles_counterexample:
  "poll_for_output_files
     (\<lambda>n. if n \<le> 20
           then faulty_listing_service [(''output/demo/v1/model.stl'', Text ''solid'')]
           else example_service [(''output/demo/v1/model.stl'', Text ''solid'')])
     (\<lambda>n. ''20250101_000000'') ''demo'' 1 =
   [MarkScriptProcessed [] ''timeout'' None, UpdateProject ''timeout'']
   \<and> map of_filename (check_output_files
        (example_service [(''output/demo/v1/model.stl'', Text ''solid'')]) ''demo'' (Some 1))
      = [''model.stl'']"
  by code_simp

text \<open>
  C4 (amended). A poll cycle in which the store raises on the listing is turned into an
  empty result by \<open>check_output_files\<close> and the loop continues, but the cycle consumes
  one of the 20 attempts exactly as an empty poll does: when each of the 20 cycles either
  meets a store error or finds no artifact, the task ends with the timeout.
\<close>

theorem store_errors_consume_attempts:
  "(fault s ListObjectsV2 = Some e \<longrightarrow> check_output_files s p v = [])
   \<and> ((\<forall>n\<in>{1..max_attempts}. fault (world n) ListObjectsV2 \<noteq> None \<or>
          check_output_files (world n) p (Some ver) = [])
       \<longrightarrow> poll_loop (\<lambda>n. Inr (check_output_files (world n) p (Some ver))) ts p 0 =
             (max_attempts, [])
         \<and> poll_for_output_files world ts p ver =
             [MarkScriptProcessed [] ''timeout'' None, UpdateProject ''timeout''])"
proof -
  have a: "check_output_files s p v = []" if "fault s ListObjectsV2 = Some e"
    using that by (rule check_output_files_fault)
  have b: "poll_loop (\<lambda>n. Inr (check_output_files (world n) p (Some ver))) ts p 0 =
             (max_attempts, [])
         \<and> poll_for_output_files world ts p ver =
             [MarkScriptProcessed [] ''timeout'' None, UpdateProject ''timeout'']"
    if h: "\<forall>n\<in>{1..max_attempts}. fault (world n) ListObjectsV2 \<noteq> None \<or>
          check_output_files (world n) p (Some ver) = []"
  proof -
    have e: "check_output_files (world n) p (Some ver) = []" if "n \<in> {1..max_attempts}" for n
    proof (cases "fault (world n) ListObjectsV2")
      case None
      then show ?thesis using h that by blast
    next
      case (Some e')
      then show ?thesis by (rule check_output_files_fault)
    qed
    then have "\<forall>n\<in>{1..max_attempts}.
        (\<lambda>n. Inr (check_output_files (world n) p (Some ver)) :: exn + output_file list) n = Inr []"
      by simp
    from poll_task_all_empty[OF this]
    have "poll_for_output_files world ts p ver =
             [MarkScriptProcessed [] ''timeout'' None, UpdateProject ''timeout'']"
      by (simp add: poll_for_output_files_def)
    moreover have "poll_loop (\<lambda>n. Inr (check_output_files (world n) p (Some ver))) ts p 0 =
             (max_attempts, [])"
      using e by (intro poll_loop_all_empty) auto
    ultimately show ?thesis by simp
  qed
  show ?thesis using a b by blast
qed

theorem store_errors_consume_attempts_witness:
  "fault (faulty_listing_service [(''output/demo/v1/model.stl'', Text ''solid'')])
      ListObjectsV2 = Some ClientError
   \<and> check_output_files (faulty_listing_service [(''output/demo/v1/model.stl'', Text ''solid'')])
       ''demo'' (Some 1) = []
   \<and> poll_loop (\<lambda>n. Inr (check_output_files
         (faulty_listing_service [(''output/demo/v1/model.stl'', Text ''solid'')])
         ''demo'' (Some 1))) (\<lambda>n. ''20250101_000000'') ''demo'' 0 = (max_attempts, [])
   \<and> poll_for_output_files
       (\<lambda>n. faulty_listing_service [(''output/demo/v1/model.stl'', Text ''solid'')])
       (\<lambda>n. ''20250101_000000'') ''demo'' 1 =
      [MarkScriptProcessed [] ''timeout'' None, UpdateProject ''timeout'']"
proof -
  let ?s = "faulty_listing_service [(''output/demo/v1/model.stl'', Text ''solid'')]"
  have h1: "fault ?s ListObjectsV2 = Some ClientError"
    by (simp add: faulty_listing_service_def)
  have h2: "\<forall>n\<in>{1..max_attempts}. fault ((\<lambda>n. ?s) n) ListObjectsV2 \<noteq> None \<or>
          check_output_files ((\<lambda>n. ?s) n) ''demo'' (Some 1) = []"
    using h1 by simp
  show ?thesis
    using store_errors_consume_attempts[of ?s ClientError "''demo''" "Some 1" "\<lambda>n. ?s" 1
        "\<lambda>n. ''20250101_000000''"] h1 h2
    by blast
qed

text \<open>
  C9. Every file that \<open>check_output_files\<close> returns is named by the last path component
  of its key, is not \<open>metadata.json\<close>, and has a name that ends, letter case aside, in one
  of the six supported extensions. Hence a version whose output folder holds nothing but
  \<open>metadata.json\<close> is never seen as completed: the polling task ends with the timeout.
\<close>

theorem check_output_files_only_supported_formats:
  "(\<forall>f\<in>set (check_output_files s p v).
        of_filename f = last (split_on CHR ''/'' (of_key f))
      \<and> of_filename f \<noteq> ''metadata.json''
      \<and> (\<exists>ext\<in>set supported_extensions. suffix (upper ext) (upper (of_filename f)))
      \<and> of_key f \<in> fst ` set (objects s))
   \<and> (ver \<noteq> 0 \<and>
       (\<forall>n\<in>{1..max_attempts}. \<forall>k\<in>fst ` set (objects (world n)).
           prefix (output_prefix p ver) k \<longrightarrow> last (split_on CHR ''/'' k) = ''metadata.json'')
       \<longrightarrow> poll_for_output_files world ts p ver =
             [MarkScriptProcessed [] ''timeout'' None, UpdateProject ''timeout''])"
proof -
  have a: "of_filename f = last (split_on CHR ''/'' (of_key f))
      \<and> of_filename f \<noteq> ''metadata.json''
      \<and> (\<exists>ext\<in>set supported_extensions. suffix (upper ext) (upper (of_filename f)))
      \<and> of_key f \<in> fst ` set (objects s)"
    if "f \<in> set (check_output_files s p v)" for f
  proof -
    from check_output_files_subset[OF that]
    obtain k where k: "k \<in> fst ` set (objects s)" "output_entry k = Some f" by blast
    from output_entry_Some[OF k(2)] have "of_key f = k"
      "of_filename f = last (split_on CHR ''/'' k)"
      "of_filename f \<noteq> ''metadata.json''"
      "list_ex (\<lambda>ext. suffix (upper ext) (upper (of_filename f))) supported_extensions"
      by blast+
    then show ?thesis using k(1) unfolding list_ex_iff by blast
  qed
  have b: "poll_for_output_files world ts p ver =
             [MarkScriptProcessed [] ''timeout'' None, UpdateProject ''timeout'']"
    if v: "ver \<noteq> 0"
      and h: "\<forall>n\<in>{1..max_attempts}. \<forall>k\<in>fst ` set (objects (world n)).
           prefix (output_prefix p ver) k \<longrightarrow> last (split_on CHR ''/'' k) = ''metadata.json''"
  proof -
    have "check_output_files (world n) p (Some ver) = []" if n: "n \<in> {1..max_attempts}" for n
    proof (rule ccontr)
      assume "check_output_files (world n) p (Some ver) \<noteq> []"
      then obtain f where "f \<in> set (check_output_files (world n) p (Some ver))"
        by (cases "check_output_files (world n) p (Some ver)") auto
      from check_output_files_subset[OF this] v
      obtain k where k: "k \<in> fst ` set (objects (world n))" "output_entry k = Some f"
        "prefix (output_prefix p ver) k" by auto
      then have "last (split_on CHR ''/'' k) = ''metadata.json''" using h n by blast
      then show False using k(2) by (simp add: output_entry_metadata)
    qed
    then have "\<forall>n\<in>{1..max_attempts}.
        (\<lambda>n. Inr (check_output_files (world n) p (Some ver)) :: exn + output_file list) n = Inr []"
      by simp
    from poll_task_all_empty[OF this] show ?thesis
      by (simp add: poll_for_output_files_def)
  qed
  show ?thesis using a b by blast
qed

theorem check_output_files_only_supported_formats_witness:
  "check_output_files
       (example_service [(''output/demo/v1/metadata.json'', Json []),
          (''output/demo/v1/Model.Stl'', Text ''solid''),
          (''output/demo/v1/notes.txt'', Text ''n'')]) ''demo'' (Some 1) =
     [\<lparr>of_filename = ''Model.Stl'', of_key = ''output/demo/v1/Model.Stl'',
       of_format = ''.STL'', of_version = Some 1, of_download_url = None\<rparr>]
   \<and> ''Model.Stl'' = last (split_on CHR ''/'' ''output/demo/v1/Model.Stl'')
   \<and> ''Model.Stl'' \<noteq> ''metadata.json''
   \<and> (\<exists>ext\<in>set supported_extensions. suffix (upper ext) (upper ''Model.Stl''))
   \<and> (1::int) \<noteq> 0
   \<and> poll_for_output_files
       (\<lambda>n. example_service [(''output/demo/v1/metadata.json'', Json [])])
       (\<lambda>n. ''20250101_000000'') ''demo'' 1 =
      [MarkScriptProcessed [] ''timeout'' None, UpdateProject ''timeout'']"
proof -
  let ?s = "example_service [(''output/demo/v1/metadata.json'', Json []),
          (''output/demo/v1/Model.Stl'', Text ''solid''),
          (''output/demo/v1/notes.txt'', Text ''n'')]"
  let ?f = "\<lparr>of_filename = ''Model.Stl'', of_key = ''output/demo/v1/Model.Stl'',
       of_format = ''.STL'', of_version = Some 1, of_download_url = None\<rparr>"
  let ?w = "\<lambda>n::nat. example_service [(''output/demo/v1/metadata.json'', Json [])]"
  note t = check_output_files_only_supported_formats[of ?s "''demo''" "Some 1" 1 ?w
      "\<lambda>n. ''20250101_000000''"]
  have c: "check_output_files ?s ''demo'' (Some 1) = [?f]"
    by code_simp
  have "?f \<in> set (check_output_files ?s ''demo'' (Some 1))"
    unfolding c by simp
  with t have p1: "of_filename ?f = last (split_on CHR ''/'' (of_key ?f))
      \<and> of_filename ?f \<noteq> ''metadata.json''
      \<and> (\<exists>ext\<in>set supported_extensions. suffix (upper ext) (upper (of_filename ?f)))"
    by blast
  have h: "\<forall>n\<in>{1..max_attempts}. \<forall>k\<in>fst ` set (objects (?w n)).
           prefix (output_prefix ''demo'' 1) k \<longrightarrow>
           last (split_on CHR ''/'' k) = ''metadata.json''"
    by (simp add: example_service_def)
  have p2: "poll_for_output_files ?w (\<lambda>n. ''20250101_000000'') ''demo'' 1 =
      [MarkScriptProcessed [] ''timeout'' None, UpdateProject ''timeout'']"
    using t h by simp
  show ?thesis using c p1 p2 by simp
qed

section \<open>Properties of the AutoFixEngine fallback\<close>

lemma contains_iff: "contains s sub \<longleftrightarrow> (\<exists>a b. s = a @ sub @ b)"
proof (induction s)
  case Nil
  then show ?case by auto
next
  case (Cons c cs)
  show ?case
  proof
    assume "contains (c # cs) sub"
    then consider "prefix sub (c # cs)" | "contains cs sub" by auto
    then show "\<exists>a b. c # cs = a @ sub @ b"
    proof cases
      case 1
      then obtain b where "c # cs = sub @ b" by (auto simp: prefix_def)
      then have "c # cs = [] @ sub @ b" by simp
      then show ?thesis by blast
    next
      case 2
      then obtain a b where "cs = a @ sub @ b" using Cons.IH by blast
      then have "c # cs = (c # a) @ sub @ b" by simp
      then show ?thesis by blast
    qed
  next
    assume "\<exists>a b. c # cs = a @ sub @ b"
    then obtain a b where ab: "c # cs = a @ sub @ b" by blast
    show "contains (c # cs) sub"
    proof (cases a)
      case Nil
      then have "prefix sub (c # cs)" using ab by (simp add: prefix_def)
      then show ?thesis by simp
    next
      case (Cons x a')
      then have "cs = a' @ sub @ b" using ab by simp
      then have "contains cs sub" using Cons.IH by blast
      then show ?thesis by simp
    qed
  qed
qed

lemma contains_lower: "contains s sub \<Longrightarrow> contains (lower s) (lower sub)"
proof -
  assume "contains s sub"
  then obtain a b where "s = a @ sub @ b" unfolding contains_iff by blast
  then have "lower s = lower a @ lower sub @ lower b" by (simp add: lower_def)
  then show ?thesis unfolding contains_iff by blast
qed

lemma contains_part: "contains s (x @ sub @ y) \<Longrightarrow> contains s sub"
proof -
  assume "contains s (x @ sub @ y)"
  then obtain a b where "s = a @ (x @ sub @ y) @ b" unfolding contains_iff by blast
  then have "s = (a @ x) @ sub @ (y @ b)" by simp
  then show ?thesis unfolding contains_iff by blast
qed

lemma no_box_call:
  assumes "\<not> contains (lower code) ''box''"
  shows "\<not> contains code ''.box(''"
proof
  assume "contains code ''.box(''"
  then have "contains (lower code) (lower ''.box('')" by (rule contains_lower)
  moreover have "lower ''.box('' = ''.'' @ ''box'' @ ''(''" by code_simp
  ultimately have "contains (lower code) (''.'' @ ''box'' @ ''('')" by simp
  then have "contains (lower code) ''box''" by (rule contains_part)
  then show False using assms by simp
qed

lemma str_int_10: "str_int 10 = ''10''"
  by code_simp

lemma generate_freecad_cylinder_few:
  "length (findall_numbers code) < 3 \<Longrightarrow>
   generate_freecad_cylinder float_repr (extract_dimensions_from_code code) =
     freecad_cylinder_script ''10'' ''10''"
  by (simp add: generate_freecad_cylinder_def extract_dimensions_from_code_def Let_def
      str_pynum_def str_int_10)

lemma generate_freecad_cylinder_three:
  "3 \<le> length (findall_numbers code) \<Longrightarrow>
   generate_freecad_cylinder float_repr (extract_dimensions_from_code code) =
     freecad_cylinder_script (float_repr (findall_numbers code ! 0))
       (float_repr (findall_numbers code ! 1))"
  by (simp add: generate_freecad_cylinder_def extract_dimensions_from_code_def Let_def
      str_pynum_def)

lemma fallback_cylinder:
  assumes "contains (lower m) ''cadquery'' \<or> contains (lower m) ''cq''"
    and "contains (lower code) ''cylinder''" and "\<not> contains (lower code) ''box''"
  shows "generate_freecad_replacement float_repr code m =
     generate_freecad_cylinder float_repr (extract_dimensions_from_code code)"
  using assms no_box_call[OF assms(3)]
  by (simp add: generate_freecad_replacement_def Let_def)

lemma ai_fixed_script_fallback:
  assumes "answer = Inl e \<or> answer = Inr None \<or>
           (\<exists>t. answer = Inr (Some t) \<and> \<not> contains t ''import FreeCAD'')"
    and "m \<noteq> []"
  shows "generate_ai_fixed_script float_repr answer code (Some m) =
     generate_freecad_replacement float_repr code m"
  using assms by (auto simp: generate_ai_fixed_script_def Let_def)

text \<open>
  C7, as stated, fails. The source \<open>result = cq.Workplane("XY").cylinder(5, 20)\<close> has only
  two numeric literals, and \<open>_extract_dimensions_from_code\<close> falls back to \<open>[10, 10, 10]\<close>
  unless it finds three: the cylinder script has radius 10 and height 10. And when the
  error message mentions neither \<open>cadquery\<close> nor \<open>cq\<close> the fallback emits the default box.
\<close>

theorem cylinder_fallback_counterexample:
  \<open>generate_ai_fixed_script float_repr_digits (Inr None)
      ''result = cq.Workplane("XY").cylinder(5, 20)'' (Some ''No module named cadquery'')
     = freecad_cylinder_script ''10'' ''10''
   \<and> contains (generate_ai_fixed_script float_repr_digits (Inr None)
      ''result = cq.Workplane("XY").cylinder(5, 20)'' (Some ''No module named cadquery''))
      ''cylinder.Radius = 10''
   \<and> \<not> contains (generate_ai_fixed_script float_repr_digits (Inr None)
      ''result = cq.Workplane("XY").cylinder(5, 20)'' (Some ''No module named cadquery''))
      ''cylinder.Radius = 5''
   \<and> generate_ai_fixed_script float_repr_digits (Inr None)
      ''result = cq.Workplane("XY").cylinder(5, 20)'' (Some ''NameError: name x is not defined'')
     = freecad_box_script ''10'' ''10'' ''10''\<close>
  by code_simp

text \<open>
  C7 (amended). Let the rule-based fallback be invoked (the collaborator raised, returned
  nothing, or returned a text without \<open>import FreeCAD\<close>) with an error message that
  mentions \<open>cadquery\<close> or \<open>cq\<close>, on a source text that mentions \<open>cylinder\<close> and not \<open>box\<close>.
  If the source has at least three numeric literals, the emitted script is the cylinder
  script whose Radius and Height are the first two numeric literals of the source, as
  floats; so a source whose literals begin 5, 20 and a third gives Radius \<open>float(5)\<close> and
  Height \<open>float(20)\<close>. If the source has fewer than three numeric literals, the script has
  Radius 10 and Height 10.
\<close>

theorem cylinder_fallback:
  assumes "answer = Inl e \<or> answer = Inr None \<or>
           (\<exists>t. answer = Inr (Some t) \<and> \<not> contains t ''import FreeCAD'')"
    and "m \<noteq> []" and "contains (lower m) ''cadquery'' \<or> contains (lower m) ''cq''"
    and "contains (lower code) ''cylinder''" and "\<not> contains (lower code) ''box''"
  shows "(3 \<le> length (findall_numbers code) \<longrightarrow>
            generate_ai_fixed_script float_repr answer code (Some m) =
              freecad_cylinder_script (float_repr (findall_numbers code ! 0))
                (float_repr (findall_numbers code ! 1)))
       \<and> (findall_numbers code = ''5'' # ''20'' # third # others \<longrightarrow>
            generate_ai_fixed_script float_repr answer code (Some m) =
              freecad_cylinder_script (float_repr ''5'') (float_repr ''20''))
       \<and> (length (findall_numbers code) < 3 \<longrightarrow>
            generate_ai_fixed_script float_repr answer code (Some m) =
              freecad_cylinder_script ''10'' ''10'')"
proof -
  have eq: "generate_ai_fixed_script float_repr answer code (Some m) =
     generate_freecad_cylinder float_repr (extract_dimensions_from_code code)"
    using ai_fixed_script_fallback[OF assms(1,2)] fallback_cylinder[OF assms(3,4,5)] by simp
  have a: "generate_ai_fixed_script float_repr answer code (Some m) =
              freecad_cylinder_script (float_repr (findall_numbers code ! 0))
                (float_repr (findall_numbers code ! 1))"
    if "3 \<le> length (findall_numbers code)"
    unfolding eq using that by (rule generate_freecad_cylinder_three)
  have b: "generate_ai_fixed_script float_repr answer code (Some m) =
              freecad_cylinder_script (float_repr ''5'') (float_repr ''20'')"
    if "findall_numbers code = ''5'' # ''20'' # third # others"
    using a that by simp
  have c: "generate_ai_fixed_script float_repr answer code (Some m) =
              freecad_cylinder_script ''10'' ''10''"
    if "length (findall_numbers code) < 3"
    unfolding eq using that by (rule generate_freecad_cylinder_few)
  show ?thesis using a b c by blast
qed

theorem cylinder_fallback_witness:
  \<open>contains (lower ''No module named cadquery'') ''cadquery''
   \<and> contains (lower ''result = cq.Workplane("XY").cylinder(5, 20).translate((0, 0, 1))'')
        ''cylinder''
   \<and> \<not> contains (lower ''result = cq.Workplane("XY").cylinder(5, 20).translate((0, 0, 1))'')
        ''box''
   \<and> findall_numbers ''result = cq.Workplane("XY").cylinder(5, 20).translate((0, 0, 1))''
        = ''5'' # ''20'' # ''0'' # [''0'', ''1'']
   \<and> generate_ai_fixed_script float_repr_digits (Inl OtherError)
        ''result = cq.Workplane("XY").cylinder(5, 20).translate((0, 0, 1))''
        (Some ''No module named cadquery'')
      = freecad_cylinder_script ''5.0'' ''20.0''
   \<and> length (findall_numbers ''result = cq.Workplane("XY").cylinder(5, 20)'') < 3
   \<and> generate_ai_fixed_script float_repr_digits (Inl OtherError)
        ''result = cq.Workplane("XY").cylinder(5, 20)'' (Some ''No module named cadquery'')
      = freecad_cylinder_script ''10'' ''10''\<close>
proof -
  let ?m = "''No module named cadquery''"
  let ?c1 = \<open>''result = cq.Workplane("XY").cylinder(5, 20).translate((0, 0, 1))''\<close>
  let ?c2 = \<open>''result = cq.Workplane("XY").cylinder(5, 20)''\<close>
  have h1: "(Inl OtherError :: exn + string option) = Inl OtherError \<or>
            (Inl OtherError :: exn + string option) = Inr None \<or>
           (\<exists>t. (Inl OtherError :: exn + string option) = Inr (Some t) \<and>
                \<not> contains t ''import FreeCAD'')"
    by simp
  have h2: "?m \<noteq> []" by simp
  have h3: "contains (lower ?m) ''cadquery'' \<or> contains (lower ?m) ''cq''" by code_simp
  have h3': "contains (lower ?m) ''cadquery''" by code_simp
  have h4: "contains (lower ?c1) ''cylinder''" by code_simp
  have h5: "\<not> contains (lower ?c1) ''box''" by code_simp
  have h6: "contains (lower ?c2) ''cylinder''" by code_simp
  have h7: "\<not> contains (lower ?c2) ''box''" by code_simp
  have n1: "findall_numbers ?c1 = ''5'' # ''20'' # ''0'' # [''0'', ''1'']" by code_simp
  have n2: "length (findall_numbers ?c2) < 3" by code_simp
  have f: "float_repr_digits ''5'' = ''5.0''" "float_repr_digits ''20'' = ''20.0''"
    by code_simp+
  have r1: "generate_ai_fixed_script float_repr_digits (Inl OtherError) ?c1 (Some ?m) =
      freecad_cylinder_script ''5.0'' ''20.0''"
    using cylinder_fallback[OF h1 h2 h3 h4 h5, where float_repr = float_repr_digits
        and third = "''0''" and others = "[''0'', ''1'']"] n1
    unfolding f by blast
  have r2: "generate_ai_fixed_script float_repr_digits (Inl OtherError) ?c2 (Some ?m) =
      freecad_cylinder_script ''10'' ''10''"
    using cylinder_fallback[OF h1 h2 h3 h6 h7, where float_repr = float_repr_digits
        and third = "''0''" and others = "[]"] n2
    by blast
  show ?thesis using h3' h4 h5 n1 r1 n2 r2 by blast
qed

section \<open>Properties of the RecoveryCoordinator\<close>

subsection \<open>Keys of different kinds are different\<close>

lemma keys_distinct:
  "processed_key p v \<noteq> error_key p v" "processed_key p v \<noteq> script_key p v"
  "processed_key p v \<noteq> fix_log_key p v st" "error_key p v \<noteq> script_key p v"
  "script_key p v \<noteq> fix_log_key p v st" "error_key p v \<noteq> fix_log_key p v st"
  by (simp_all add: script_key_def processed_key_def error_key_def fix_log_key_def)

lemma not_output_key:
  "\<not> prefix (output_prefix p v) (script_key p v')"
  "\<not> prefix (output_prefix p v) (processed_key p v')"
  "\<not> prefix (output_prefix p v) (error_key p v')"
  "\<not> prefix (output_prefix p v) (fix_log_key p v' st)"
  by (simp_all add: output_prefix_def script_key_def processed_key_def error_key_def
      fix_log_key_def)

subsection \<open>Association lists\<close>

lemma map_of_filter_keys:
  "map_of (filter (\<lambda>(k, b). P k) xs) k = (if P k then map_of xs k else None)"
  by (induction xs) auto

lemma filter_keys_delete:
  "\<not> Q k \<Longrightarrow> filter Q (map fst (AList.delete k xs)) = filter Q (map fst xs)"
  by (induction xs) auto

lemma filter_keys_update:
  "\<not> Q k \<Longrightarrow> filter Q (map fst (AList.update k b xs)) = filter Q (map fst xs)"
  by (simp add: AList.update_keys)

lemma keys_update_present:
  "k \<in> fst ` set xs \<Longrightarrow> map fst (AList.update k v xs) = map fst xs"
  by (simp add: AList.update_keys)

lemma map_of_Some_key: "map_of xs k = Some b \<Longrightarrow> k \<in> fst ` set xs"
  by (metis domI dom_map_of_conv_image_fst)

lemma cleared_no_output_keys:
  "filter (prefix pre) (map fst (filter (\<lambda>(k, b). \<not> prefix pre k) xs)) = []"
  by (induction xs) auto

subsection \<open>Clearing the outputs of a version\<close>

text \<open>A folder that fits in one page of the listing is emptied.\<close>

lemma clear_version_outputs_ok:
  assumes "s3_client s" "fault s ListObjectsV2 = None" "fault s DeleteObjects = None"
    and b: "card (set (filter (prefix (output_prefix p v)) (map fst (objects s)))) \<le> max_keys"
  shows "clear_version_outputs s p v =
     (True, s\<lparr>objects := filter (\<lambda>(k, b). \<not> prefix (output_prefix p v) k) (objects s)\<rparr>)"
proof (cases "filter (prefix (output_prefix p v)) (map fst (objects s)) = []")
  case True
  then have "\<forall>x\<in>set (objects s). \<not> prefix (output_prefix p v) (fst x)"
    by (auto simp: filter_empty_conv)
  then have "filter (\<lambda>(k, b). \<not> prefix (output_prefix p v) k) (objects s) = objects s"
    by (auto simp: filter_id_conv)
  moreover have "clear_version_outputs s p v = (True, s)"
    using assms(1) True
    by (simp add: clear_version_outputs_def list_objects_v2_page[OF assms(2)]
        del: filter_False filter_empty_conv)
  ultimately show ?thesis by simp
next
  case False
  let ?page = "take max_keys
                 (sort (remdups (filter (prefix (output_prefix p v)) (map fst (objects s)))))"
  have l: "list_objects_v2 s (output_prefix p v) = Inr (Some ?page)"
    using False by (simp add: list_objects_v2_page[OF assms(2)]
        del: filter_False filter_empty_conv)
  have ne: "?page \<noteq> []"
    using False page_Nil[of max_keys "filter (prefix (output_prefix p v)) (map fst (objects s))"]
    by (simp add: max_keys_def del: filter_False filter_empty_conv)
  have sp: "set ?page = set (filter (prefix (output_prefix p v)) (map fst (objects s)))"
    using b by (rule page_all)
  have "filter (\<lambda>(k, b). k \<notin> set ?page) (objects s) =
        filter (\<lambda>(k, b). \<not> prefix (output_prefix p v) k) (objects s)"
    unfolding sp by (rule filter_cong) (auto simp: image_iff)
  then show ?thesis
    using assms(1,3) ne
    by (simp add: clear_version_outputs_def l delete_objects_def
        del: filter_False filter_empty_conv)
qed

subsection \<open>retry\<close>

lemma retry_ok:
  assumes "s3_client s" "get_object s (error_key p v) = Inr (Json d)"
    and "map_of d ''retry_count'' = Some (JInt n) \<or> map_of d ''retry_count'' = None \<and> n = 0"
    and "n < 3"
    and "fault s DeleteObject = None" "fault s PutObject = None"
  shows "retry_failed_script now s p v =
     (RetrySuccess p v (n + 1),
      s\<lparr>objects := AList.update (error_key p v)
          (Json (AList.update ''retry_attempted_at'' (JStr now)
                  (AList.update ''retry_count'' (JInt (n + 1)) d)))
          (AList.delete (processed_key p v) (objects s))\<rparr>)"
  using assms
  by (auto simp: retry_failed_script_def json_loads_def delete_object_def put_object_def Let_def)

lemma retry_exhausted:
  assumes "s3_client s" "get_object s (error_key p v) = Inr (Json d)"
    and "map_of d ''retry_count'' = Some (JInt n) \<or> map_of d ''retry_count'' = None \<and> n = 0"
    and "3 \<le> n"
  shows "retry_failed_script now s p v =
     (Failure ''Maximum retry attempts reached'' (Some n), s)"
  using assms
  by (auto simp: retry_failed_script_def json_loads_def)

lemma retry_keeps_marker_absent:
  assumes "map_of (objects s) (processed_key p v) = None"
  shows "map_of (objects (snd (retry_failed_script now s p v))) (processed_key p v) = None"
proof -
  have "snd (retry_failed_script now s p v) = s
      \<or> snd (retry_failed_script now s p v) =
          s\<lparr>objects := AList.delete (processed_key p v) (objects s)\<rparr>
      \<or> (\<exists>b. snd (retry_failed_script now s p v) =
          s\<lparr>objects := AList.update (error_key p v) b (objects s)\<rparr>)
      \<or> (\<exists>b. snd (retry_failed_script now s p v) =
          s\<lparr>objects := AList.update (error_key p v) b
                (AList.delete (processed_key p v) (objects s))\<rparr>)"
    unfolding retry_failed_script_def Let_def
    by (auto simp: delete_object_def put_object_def
        split: sum.splits exn.splits option.splits jval.splits if_splits)
  then show ?thesis
    using assms keys_distinct(1)[of p v]
    by (auto simp: update_conv' delete_conv')
qed

lemma retry_success_D:
  assumes "fst (retry_failed_script now s p v) = RetrySuccess p v m"
    and "fault s DeleteObject = None"
  shows "\<exists>d b. map_of (objects s) (error_key p v) = Some (Json d) \<and>
           snd (retry_failed_script now s p v) =
             s\<lparr>objects := AList.update (error_key p v) b
                   (AList.delete (processed_key p v) (objects s))\<rparr>"
  using assms unfolding retry_failed_script_def Let_def
  by (auto simp: delete_object_def put_object_def get_object_def json_loads_def
      split: sum.splits exn.splits option.splits jval.splits if_splits body.splits)

lemma retry_outputs_untouched:
  assumes "map_of objs (error_key p v) = Some r"
  shows "filter (prefix (output_prefix p v))
           (map fst (AList.update (error_key p v) b (AList.delete (processed_key p v) objs))) =
         filter (prefix (output_prefix p v)) (map fst objs)"
  using filter_keys_update[of "prefix (output_prefix p v)" "error_key p v" b
      "AList.delete (processed_key p v) objs"]
    filter_keys_delete[of "prefix (output_prefix p v)" "processed_key p v" objs]
    not_output_key(2,3)[of p v v]
  by simp

subsection \<open>replace\<close>

lemma replace_not_configured:
  "\<not> s3_client s \<Longrightarrow>
   fst (replace_failed_script s p v code) = Failure ''S3 not configured'' None"
  by (simp add: replace_failed_script_def)

lemma replace_text_record:
  assumes "s3_client s" "fault s GetObject = None"
    and "map_of (objects s) (error_key p v) = Some (Text t)"
  shows "fst (replace_failed_script s p v code) = Exception OtherError"
  using assms by (simp add: replace_failed_script_def get_object_def json_loads_def)

lemma replace_ok:
  assumes c: "s3_client s" and nf: "\<forall>c. fault s c = None"
    and e: "map_of (objects s) (error_key p v) = None \<or>
            (\<exists>d. map_of (objects s) (error_key p v) = Some (Json d))"
    and b: "card (set (filter (prefix (output_prefix p v)) (map fst (objects s)))) \<le> max_keys"
  shows "\<exists>X. replace_failed_script s p v code =
            (ReplaceSuccess p v (script_key p v), s\<lparr>objects := X\<rparr>)
          \<and> map_of X (processed_key p v) = None
          \<and> filter (prefix (output_prefix p v)) (map fst X) = []
          \<and> (map_of X (error_key p v) = None \<or>
              (\<exists>d. map_of X (error_key p v) = Some (Json d)))"
proof -
  define objs2 where
    "objs2 = AList.delete (processed_key p v)
               (AList.update (script_key p v) (Text code) (objects s))"
  have m2: "map_of objs2 (processed_key p v) = None"
    "map_of objs2 (error_key p v) = map_of (objects s) (error_key p v)"
    using keys_distinct(1,4)[of p v]
    by (simp_all add: objs2_def update_conv' delete_conv')
  have np: "\<not> prefix (output_prefix p v) (processed_key p v)"
    "\<not> prefix (output_prefix p v) (error_key p v)"
    "\<not> prefix (output_prefix p v) (script_key p v)"
    by (rule not_output_key)+
  have k2: "filter (prefix (output_prefix p v)) (map fst objs2) =
            filter (prefix (output_prefix p v)) (map fst (objects s))"
    unfolding objs2_def using np by (simp add: filter_keys_delete filter_keys_update)
  have k3: "filter (prefix (output_prefix p v)) (map fst (AList.delete (error_key p v) objs2)) =
            filter (prefix (output_prefix p v)) (map fst (objects s))"
    using np k2 by (simp add: filter_keys_delete)
  have ok: "clear_version_outputs (s\<lparr>objects := Y\<rparr>) p v =
     (True, s\<lparr>objects := filter (\<lambda>(k, b). \<not> prefix (output_prefix p v) k) Y\<rparr>)"
    if "filter (prefix (output_prefix p v)) (map fst Y) =
        filter (prefix (output_prefix p v)) (map fst (objects s))" for Y
    using clear_version_outputs_ok[of "s\<lparr>objects := Y\<rparr>" p v] c nf b that by simp
  note ok2 = ok[OF k2, unfolded objs2_def] and ok3 = ok[OF k3, unfolded objs2_def]
  consider (none) "map_of (objects s) (error_key p v) = None"
    | (empty) "map_of (objects s) (error_key p v) = Some (Json [])"
    | (filled) d where "map_of (objects s) (error_key p v) = Some (Json d)" "d \<noteq> []"
    using e by (metis)
  then show ?thesis
  proof cases
    case none
    let ?X = "filter (\<lambda>(k, b). \<not> prefix (output_prefix p v) k) objs2"
    have "replace_failed_script s p v code =
            (ReplaceSuccess p v (script_key p v), s\<lparr>objects := ?X\<rparr>)"
      using c nf none
      by (simp add: replace_failed_script_def get_object_def put_object_def delete_object_def
          ok2 objs2_def)
    moreover have "map_of ?X (processed_key p v) = None"
      "map_of ?X (error_key p v) = None"
      using m2 none by (simp_all add: map_of_filter_keys)
    ultimately show ?thesis
      using cleared_no_output_keys[of "output_prefix p v" objs2] by blast
  next
    case empty
    let ?X = "filter (\<lambda>(k, b). \<not> prefix (output_prefix p v) k) objs2"
    have "replace_failed_script s p v code =
            (ReplaceSuccess p v (script_key p v), s\<lparr>objects := ?X\<rparr>)"
      using c nf empty
      by (simp add: replace_failed_script_def get_object_def put_object_def delete_object_def
          json_loads_def ok2 objs2_def)
    moreover have "map_of ?X (processed_key p v) = None"
      "map_of ?X (error_key p v) = Some (Json [])"
      using m2 empty np by (simp_all add: map_of_filter_keys)
    ultimately show ?thesis
      using cleared_no_output_keys[of "output_prefix p v" objs2] by blast
  next
    case filled
    let ?X = "filter (\<lambda>(k, b). \<not> prefix (output_prefix p v) k)
                (AList.delete (error_key p v) objs2)"
    have "replace_failed_script s p v code =
            (ReplaceSuccess p v (script_key p v), s\<lparr>objects := ?X\<rparr>)"
      using c nf filled
      by (simp add: replace_failed_script_def get_object_def put_object_def delete_object_def
          json_loads_def ok3 objs2_def)
    moreover have "map_of ?X (processed_key p v) = None"
      "map_of ?X (error_key p v) = None"
      using m2 by (simp_all add: map_of_filter_keys delete_conv')
    ultimately show ?thesis
      using cleared_no_output_keys[of "output_prefix p v" "AList.delete (error_key p v) objs2"]
      by blast
  qed
qed

subsection \<open>auto_fix\<close>

lemma auto_fix_not_configured:
  "\<not> s3_client s \<Longrightarrow>
   \<not> fst (auto_fix_failed_script float_repr answer now stamp s p v msg)"
  by (simp add: auto_fix_failed_script_def)

lemma auto_fix_no_script:
  assumes "map_of (objects s) (script_key p v) = None"
  shows "\<not> fst (auto_fix_failed_script float_repr answer now stamp s p v msg)"
  using assms
  by (simp add: auto_fix_failed_script_def get_object_def split: option.splits)

lemma keys_update_not_output:
  assumes "\<not> prefix pre k" "filter (prefix pre) (map fst Y) = []"
  shows "filter (prefix pre) (map fst (AList.update k b Y)) = []"
  using assms by (simp add: AList.update_keys del: filter_False filter_empty_conv)

lemma auto_fix_ok:
  assumes c: "s3_client s" and nf: "\<forall>c. fault s c = None"
    and e: "map_of (objects s) (script_key p v) = Some b"
    and bd: "card (set (filter (prefix (output_prefix p v)) (map fst (objects s)))) \<le> max_keys"
  shows "\<exists>X. auto_fix_failed_script float_repr answer now stamp s p v msg =
            (True, s\<lparr>objects := X\<rparr>)
          \<and> map_of X (processed_key p v) = None
          \<and> filter (prefix (output_prefix p v)) (map fst X) = []
          \<and> (\<exists>b'. map_of X (script_key p v) = Some b')"
proof -
  define code where
    "code = generate_ai_fixed_script float_repr answer (body_text b) msg"
  define objs2 where
    "objs2 = AList.delete (processed_key p v)
               (AList.update (script_key p v) (Text code) (objects s))"
  define fix_log where "fix_log =
     [(''project_name'', JStr p), (''version'', JInt v), (''action'', JStr ''auto_fix''),
      (''original_error'', case msg of None \<Rightarrow> JNull | Some m \<Rightarrow> JStr m),
      (''fixed_at'', JStr now), (''fix_type'', JStr ''cadquery_to_freecad''),
      (''status'', JStr ''script_replaced'')]"
  let ?Y = "filter (\<lambda>(k, b). \<not> prefix (output_prefix p v) k) objs2"
  let ?X = "AList.update (fix_log_key p v stamp) (Json fix_log) ?Y"
  have np: "\<not> prefix (output_prefix p v) (script_key p v)"
    "\<not> prefix (output_prefix p v) (fix_log_key p v stamp)"
    "\<not> prefix (output_prefix p v) (processed_key p v)"
    by (rule not_output_key)+
  have k2: "filter (prefix (output_prefix p v)) (map fst objs2) =
            filter (prefix (output_prefix p v)) (map fst (objects s))"
    unfolding objs2_def using np by (simp add: filter_keys_delete filter_keys_update)
  have ok: "clear_version_outputs (s\<lparr>objects := objs2\<rparr>) p v =
     (True, s\<lparr>objects := filter (\<lambda>(k, b). \<not> prefix (output_prefix p v) k) objs2\<rparr>)"
    using clear_version_outputs_ok[of "s\<lparr>objects := objs2\<rparr>" p v] c nf bd k2 by simp
  have r: "auto_fix_failed_script float_repr answer now stamp s p v msg =
            (True, s\<lparr>objects := ?X\<rparr>)"
    using c nf e
    by (simp add: auto_fix_failed_script_def get_object_def put_object_def delete_object_def
        ok[unfolded objs2_def code_def] objs2_def code_def fix_log_def Let_def)
  have m2: "map_of objs2 (processed_key p v) = None"
    "map_of objs2 (script_key p v) = Some (Text code)"
    using keys_distinct(2)[of p v]
    by (simp_all add: objs2_def update_conv' delete_conv')
  have "map_of ?X (processed_key p v) = None"
    using m2(1) keys_distinct(3)[of p v stamp] by (simp add: update_conv' map_of_filter_keys)
  moreover have "map_of ?X (script_key p v) = Some (Text code)"
    using m2(2) np(1) keys_distinct(5)[of p v stamp]
    by (simp add: update_conv' map_of_filter_keys)
  moreover have "filter (prefix (output_prefix p v)) (map fst ?X) = []"
    using np(2) cleared_no_output_keys[of "output_prefix p v" objs2]
    by (rule keys_update_not_output)
  ultimately show ?thesis using r by blast
qed

lemma replace_clears:
  assumes nf: "\<forall>c. fault s c = None"
    and b: "card (set (filter (prefix (output_prefix p v)) (map fst (objects s)))) \<le> max_keys"
    and ok: "fst (replace_failed_script s p v code) = ReplaceSuccess p v (script_key p v)"
  shows "\<exists>X. snd (replace_failed_script s p v code) = s\<lparr>objects := X\<rparr>
          \<and> s3_client s
          \<and> map_of X (processed_key p v) = None
          \<and> filter (prefix (output_prefix p v)) (map fst X) = []
          \<and> (map_of X (error_key p v) = None \<or>
              (\<exists>d. map_of X (error_key p v) = Some (Json d)))"
proof -
  have c: "s3_client s"
    using ok replace_not_configured[of s p v code] by auto
  have e: "map_of (objects s) (error_key p v) = None \<or>
            (\<exists>d. map_of (objects s) (error_key p v) = Some (Json d))"
  proof (cases "map_of (objects s) (error_key p v)")
    case None
    then show ?thesis by simp
  next
    case (Some r)
    show ?thesis
    proof (cases r)
      case (Text t)
      then have "fst (replace_failed_script s p v code) = Exception OtherError"
        using replace_text_record[of s p v t code] c nf Some by simp
      then show ?thesis using ok by simp
    next
      case (Json d)
      then show ?thesis using Some by simp
    qed
  qed
  from replace_ok[OF c nf e b, of code] c show ?thesis by auto
qed

lemma auto_fix_clears:
  assumes nf: "\<forall>c. fault s c = None"
    and b: "card (set (filter (prefix (output_prefix p v)) (map fst (objects s)))) \<le> max_keys"
    and ok: "fst (auto_fix_failed_script float_repr answer now stamp s p v msg)"
  shows "\<exists>X. snd (auto_fix_failed_script float_repr answer now stamp s p v msg) =
              s\<lparr>objects := X\<rparr>
          \<and> s3_client s
          \<and> map_of X (processed_key p v) = None
          \<and> filter (prefix (output_prefix p v)) (map fst X) = []
          \<and> (\<exists>b'. map_of X (script_key p v) = Some b')"
proof -
  have c: "s3_client s"
    using ok auto_fix_not_configured[of s float_repr answer now stamp p v msg] by auto
  obtain r where e: "map_of (objects s) (script_key p v) = Some r"
    using ok auto_fix_no_script[of s p v float_repr answer now stamp msg]
    by (cases "map_of (objects s) (script_key p v)") auto
  from auto_fix_ok[OF c nf e b, of float_repr answer now stamp msg] c show ?thesis by auto
qed

text \<open>
  C1, as stated, fails for \<open>retry\<close>: it deletes the processed marker and updates the error
  record, and leaves the output artifacts of the version where they are.
\<close>

theorem retry_leaves_outputs_counterexample:
  "fst (retry_failed_script ''2025-01-02T00:00:00'' (failed_version_service 0) ''demo'' 1)
     = RetrySuccess ''demo'' 1 1
   \<and> output_keys
       (snd (retry_failed_script ''2025-01-02T00:00:00'' (failed_version_service 0) ''demo'' 1))
       ''demo'' 1 = [''output/demo/v1/model.stl'']"
  by code_simp

text \<open>
  C1 (amended). On a store that answers every call, for a version whose output folder
  holds at most \<open>max_keys\<close> keys (one page of the listing): after \<open>replace\<close> or \<open>auto_fix\<close>
  has returned successfully, the processed marker of that version is absent and its output
  folder is empty, and running the same operation a second time succeeds again and leaves
  the marker absent and the folder empty. After \<open>retry\<close> has returned successfully the
  marker is absent, and stays absent under a second \<open>retry\<close>; the output artifacts are
  left untouched.
\<close>

theorem recovery_clears_processing_state:
  assumes "\<forall>c. fault s c = None"
    and "card (set (output_keys s p v)) \<le> max_keys"
  shows
    "(fst (replace_failed_script s p v code) = ReplaceSuccess p v (script_key p v) \<longrightarrow>
        marker_absent (snd (replace_failed_script s p v code)) p v
      \<and> output_keys (snd (replace_failed_script s p v code)) p v = []
      \<and> fst (replace_failed_script (snd (replace_failed_script s p v code)) p v code) =
          ReplaceSuccess p v (script_key p v)
      \<and> marker_absent
          (snd (replace_failed_script (snd (replace_failed_script s p v code)) p v code)) p v
      \<and> output_keys
          (snd (replace_failed_script (snd (replace_failed_script s p v code)) p v code)) p v
          = [])
   \<and> (fst (auto_fix_failed_script float_repr answer now stamp s p v msg) \<longrightarrow>
        marker_absent (snd (auto_fix_failed_script float_repr answer now stamp s p v msg)) p v
      \<and> output_keys (snd (auto_fix_failed_script float_repr answer now stamp s p v msg)) p v
          = []
      \<and> fst (auto_fix_failed_script float_repr answer' now' stamp'
            (snd (auto_fix_failed_script float_repr answer now stamp s p v msg)) p v msg)
      \<and> marker_absent
          (snd (auto_fix_failed_script float_repr answer' now' stamp'
            (snd (auto_fix_failed_script float_repr answer now stamp s p v msg)) p v msg)) p v
      \<and> output_keys
          (snd (auto_fix_failed_script float_repr answer' now' stamp'
            (snd (auto_fix_failed_script float_repr answer now stamp s p v msg)) p v msg)) p v
          = [])
   \<and> (fst (retry_failed_script now s p v) = RetrySuccess p v m \<longrightarrow>
        marker_absent (snd (retry_failed_script now s p v)) p v
      \<and> output_keys (snd (retry_failed_script now s p v)) p v = output_keys s p v
      \<and> marker_absent
          (snd (retry_failed_script now' (snd (retry_failed_script now s p v)) p v)) p v)"
proof -
  note nf = assms(1)
  have bd: "card (set (filter (prefix (output_prefix p v)) (map fst (objects s)))) \<le> max_keys"
    using assms(2) by (simp add: output_keys_def)
  have rep: "marker_absent (snd (replace_failed_script s p v code)) p v
      \<and> output_keys (snd (replace_failed_script s p v code)) p v = []
      \<and> fst (replace_failed_script (snd (replace_failed_script s p v code)) p v code) =
          ReplaceSuccess p v (script_key p v)
      \<and> marker_absent
          (snd (replace_failed_script (snd (replace_failed_script s p v code)) p v code)) p v
      \<and> output_keys
          (snd (replace_failed_script (snd (replace_failed_script s p v code)) p v code)) p v
          = []"
    if ok: "fst (replace_failed_script s p v code) = ReplaceSuccess p v (script_key p v)"
  proof -
    from replace_clears[OF nf bd ok] obtain X where
      X: "snd (replace_failed_script s p v code) = s\<lparr>objects := X\<rparr>" "s3_client s"
        "map_of X (processed_key p v) = None"
        "filter (prefix (output_prefix p v)) (map fst X) = []"
        "map_of X (error_key p v) = None \<or> (\<exists>d. map_of X (error_key p v) = Some (Json d))"
      by blast
    have c1: "s3_client (s\<lparr>objects := X\<rparr>)" "\<forall>c. fault (s\<lparr>objects := X\<rparr>) c = None"
      "map_of (objects (s\<lparr>objects := X\<rparr>)) (error_key p v) = None \<or>
       (\<exists>d. map_of (objects (s\<lparr>objects := X\<rparr>)) (error_key p v) = Some (Json d))"
      "card (set (filter (prefix (output_prefix p v)) (map fst (objects (s\<lparr>objects := X\<rparr>)))))
         \<le> max_keys"
      using X(2,4,5) nf by simp_all
    from replace_ok[OF c1, of code] obtain X' where
      X': "replace_failed_script (s\<lparr>objects := X\<rparr>) p v code =
            (ReplaceSuccess p v (script_key p v), s\<lparr>objects := X, objects := X'\<rparr>)"
        "map_of X' (processed_key p v) = None"
        "filter (prefix (output_prefix p v)) (map fst X') = []"
      by blast
    show ?thesis
      unfolding X(1) X'(1) using X(3,4) X'(2,3)
      by (simp add: marker_absent_def output_keys_def)
  qed
  have afx: "marker_absent (snd (auto_fix_failed_script float_repr answer now stamp s p v msg)) p v
      \<and> output_keys (snd (auto_fix_failed_script float_repr answer now stamp s p v msg)) p v
          = []
      \<and> fst (auto_fix_failed_script float_repr answer' now' stamp'
            (snd (auto_fix_failed_script float_repr answer now stamp s p v msg)) p v msg)
      \<and> marker_absent
          (snd (auto_fix_failed_script float_repr answer' now' stamp'
            (snd (auto_fix_failed_script float_repr answer now stamp s p v msg)) p v msg)) p v
      \<and> output_keys
          (snd (auto_fix_failed_script float_repr answer' now' stamp'
            (snd (auto_fix_failed_script float_repr answer now stamp s p v msg)) p v msg)) p v
          = []"
    if ok: "fst (auto_fix_failed_script float_repr answer now stamp s p v msg)"
  proof -
    from auto_fix_clears[OF nf bd ok] obtain X r where
      X: "snd (auto_fix_failed_script float_repr answer now stamp s p v msg) =
            s\<lparr>objects := X\<rparr>" "s3_client s"
        "map_of X (processed_key p v) = None"
        "filter (prefix (output_prefix p v)) (map fst X) = []"
        "map_of X (script_key p v) = Some r"
      by blast
    have c1: "s3_client (s\<lparr>objects := X\<rparr>)" "\<forall>c. fault (s\<lparr>objects := X\<rparr>) c = None"
      "map_of (objects (s\<lparr>objects := X\<rparr>)) (script_key p v) = Some r"
      "card (set (filter (prefix (output_prefix p v)) (map fst (objects (s\<lparr>objects := X\<rparr>)))))
         \<le> max_keys"
      using X(2,4,5) nf by simp_all
    from auto_fix_ok[OF c1, of float_repr answer' now' stamp' msg] obtain X' where
      X': "auto_fix_failed_script float_repr answer' now' stamp' (s\<lparr>objects := X\<rparr>) p v msg =
            (True, s\<lparr>objects := X, objects := X'\<rparr>)"
        "map_of X' (processed_key p v) = None"
        "filter (prefix (output_prefix p v)) (map fst X') = []"
      by blast
    show ?thesis
      unfolding X(1) X'(1) using X(3,4) X'(2,3)
      by (simp add: marker_absent_def output_keys_def)
  qed
  have ret: "marker_absent (snd (retry_failed_script now s p v)) p v
      \<and> output_keys (snd (retry_failed_script now s p v)) p v = output_keys s p v
      \<and> marker_absent
          (snd (retry_failed_script now' (snd (retry_failed_script now s p v)) p v)) p v"
    if ok: "fst (retry_failed_script now s p v) = RetrySuccess p v m"
  proof -
    have "fault s DeleteObject = None" using nf by simp
    from retry_success_D[OF ok this] obtain d r where
      d: "map_of (objects s) (error_key p v) = Some (Json d)"
      and s1: "snd (retry_failed_script now s p v) =
             s\<lparr>objects := AList.update (error_key p v) r
                   (AList.delete (processed_key p v) (objects s))\<rparr>"
      by blast
    have mk: "map_of (objects (snd (retry_failed_script now s p v))) (processed_key p v) = None"
      unfolding s1 using keys_distinct(1)[of p v] by (simp add: update_conv' delete_conv')
    have o: "output_keys (snd (retry_failed_script now s p v)) p v = output_keys s p v"
      unfolding s1 output_keys_def using retry_outputs_untouched[OF d] by simp
    show ?thesis
      using mk o retry_keeps_marker_absent[OF mk, of now'] by (simp add: marker_absent_def)
  qed
  show ?thesis using rep afx ret by blast
qed

theorem recovery_clears_processing_state_witness:
  "(\<forall>c. fault (failed_version_service 0) c = None)
   \<and> card (set (output_keys (failed_version_service 0) ''demo'' 1)) \<le> max_keys
   \<and> fst (replace_failed_script (failed_version_service 0) ''demo'' 1 ''import FreeCAD'') =
       ReplaceSuccess ''demo'' 1 (script_key ''demo'' 1)
   \<and> marker_absent
       (snd (replace_failed_script (failed_version_service 0) ''demo'' 1 ''import FreeCAD''))
       ''demo'' 1
   \<and> output_keys
       (snd (replace_failed_script (failed_version_service 0) ''demo'' 1 ''import FreeCAD''))
       ''demo'' 1 = []
   \<and> fst (auto_fix_failed_script float_repr_digits (Inr None) ''2025-01-02T00:00:00''
            ''20250102_000000'' (failed_version_service 0) ''demo'' 1 (Some ''boom''))
   \<and> marker_absent
       (snd (auto_fix_failed_script float_repr_digits (Inr None) ''2025-01-02T00:00:00''
            ''20250102_000000'' (failed_version_service 0) ''demo'' 1 (Some ''boom'')))
       ''demo'' 1
   \<and> output_keys
       (snd (auto_fix_failed_script float_repr_digits (Inr None) ''2025-01-02T00:00:00''
            ''20250102_000000'' (failed_version_service 0) ''demo'' 1 (Some ''boom'')))
       ''demo'' 1 = []
   \<and> fst (retry_failed_script ''2025-01-02T00:00:00'' (failed_version_service 0) ''demo'' 1) =
       RetrySuccess ''demo'' 1 1
   \<and> marker_absent
       (snd (retry_failed_script ''2025-01-02T00:00:00'' (failed_version_service 0) ''demo'' 1))
       ''demo'' 1"
proof -
  have h1: "\<forall>c. fault (failed_version_service 0) c = None"
    by (simp add: failed_version_service_def example_service_def)
  have h2: "card (set (output_keys (failed_version_service 0) ''demo'' 1)) \<le> max_keys"
    by code_simp
  have h3: "fst (replace_failed_script (failed_version_service 0) ''demo'' 1 ''import FreeCAD'') =
       ReplaceSuccess ''demo'' 1 (script_key ''demo'' 1)"
    by code_simp
  have h4: "fst (auto_fix_failed_script float_repr_digits (Inr None) ''2025-01-02T00:00:00''
            ''20250102_000000'' (failed_version_service 0) ''demo'' 1 (Some ''boom''))"
    by code_simp
  have h5: "fst (retry_failed_script ''2025-01-02T00:00:00'' (failed_version_service 0) ''demo'' 1)
       = RetrySuccess ''demo'' 1 1"
    by code_simp
  show ?thesis
    using recovery_clears_processing_state[OF h1 h2, where code = "''import FreeCAD''"
        and float_repr = float_repr_digits and answer = "Inr None"
        and now = "''2025-01-02T00:00:00''" and stamp = "''20250102_000000''"
        and msg = "Some ''boom''" and m = 1 and answer' = "Inr None"
        and now' = "''2025-01-02T00:00:00''" and stamp' = "''20250102_000000''"]
      h1 h2 h3 h4 h5
    by simp
qed

text \<open>
  C2. On a configured service whose error record of the version is a JSON object with an
  integer \<open>retry_count\<close> \<open>n\<close> (a record without the field counts as \<open>n = 0\<close>): when \<open>n\<close> is 3 or more, \<open>retry\<close> fails with
  \<open>Maximum retry attempts reached\<close> and the bucket is unchanged (the error record and the
  processed marker are as before); when \<open>n < 3\<close> and the store answers the deletion and
  the write, \<open>retry\<close> succeeds, the processed marker is absent, and the error record is the
  old one with \<open>retry_count\<close> set to \<open>n + 1\<close> and \<open>retry_attempted_at\<close> set to the current
  time, every other object of the bucket being as before.
\<close>

theorem retry_respects_budget:
  assumes "s3_client s" "get_object s (error_key p v) = Inr (Json d)"
    and "map_of d ''retry_count'' = Some (JInt n) \<or> map_of d ''retry_count'' = None \<and> n = 0"
  shows "(3 \<le> n \<longrightarrow>
            retry_failed_script now s p v =
              (Failure ''Maximum retry attempts reached'' (Some n), s))
       \<and> (n < 3 \<and> fault s DeleteObject = None \<and> fault s PutObject = None \<longrightarrow>
            fst (retry_failed_script now s p v) = RetrySuccess p v (n + 1)
          \<and> objects (snd (retry_failed_script now s p v)) =
              AList.update (error_key p v)
                (Json (AList.update ''retry_attempted_at'' (JStr now)
                        (AList.update ''retry_count'' (JInt (n + 1)) d)))
                (AList.delete (processed_key p v) (objects s))
          \<and> marker_absent (snd (retry_failed_script now s p v)) p v
          \<and> (\<exists>d'. get_object (snd (retry_failed_script now s p v)) (error_key p v) =
                     Inr (Json d')
                 \<and> map_of d' ''retry_count'' = Some (JInt (n + 1))
                 \<and> map_of d' ''retry_attempted_at'' = Some (JStr now)
                 \<and> (\<forall>f. f \<noteq> ''retry_count'' \<and> f \<noteq> ''retry_attempted_at''
                        \<longrightarrow> map_of d' f = map_of d f))
          \<and> (\<forall>k. k \<noteq> error_key p v \<and> k \<noteq> processed_key p v \<longrightarrow>
                 map_of (objects (snd (retry_failed_script now s p v))) k =
                 map_of (objects s) k))"
proof -
  have a: "retry_failed_script now s p v =
              (Failure ''Maximum retry attempts reached'' (Some n), s)" if "3 \<le> n"
    using assms that by (rule retry_exhausted)
  have b: "fst (retry_failed_script now s p v) = RetrySuccess p v (n + 1)
          \<and> objects (snd (retry_failed_script now s p v)) =
              AList.update (error_key p v)
                (Json (AList.update ''retry_attempted_at'' (JStr now)
                        (AList.update ''retry_count'' (JInt (n + 1)) d)))
                (AList.delete (processed_key p v) (objects s))
          \<and> marker_absent (snd (retry_failed_script now s p v)) p v
          \<and> (\<exists>d'. get_object (snd (retry_failed_script now s p v)) (error_key p v) =
                     Inr (Json d')
                 \<and> map_of d' ''retry_count'' = Some (JInt (n + 1))
                 \<and> map_of d' ''retry_attempted_at'' = Some (JStr now)
                 \<and> (\<forall>f. f \<noteq> ''retry_count'' \<and> f \<noteq> ''retry_attempted_at''
                        \<longrightarrow> map_of d' f = map_of d f))
          \<and> (\<forall>k. k \<noteq> error_key p v \<and> k \<noteq> processed_key p v \<longrightarrow>
                 map_of (objects (snd (retry_failed_script now s p v))) k =
                 map_of (objects s) k)"
    if lt: "n < 3" and fd: "fault s DeleteObject = None" and fp: "fault s PutObject = None"
  proof -
    let ?d' = "AList.update ''retry_attempted_at'' (JStr now)
                 (AList.update ''retry_count'' (JInt (n + 1)) d)"
    note r = retry_ok[OF assms lt fd fp, of now]
    have g: "fault s GetObject = None"
      using assms(2) by (cases "fault s GetObject") (simp_all add: get_object_def)
    have 1: "fst (retry_failed_script now s p v) = RetrySuccess p v (n + 1)"
      unfolding r by simp
    have 2: "objects (snd (retry_failed_script now s p v)) =
              AList.update (error_key p v) (Json ?d')
                (AList.delete (processed_key p v) (objects s))"
      unfolding r by simp
    have 3: "marker_absent (snd (retry_failed_script now s p v)) p v"
      unfolding marker_absent_def 2 using keys_distinct(1)[of p v]
      by (simp add: update_conv' delete_conv')
    have "get_object (snd (retry_failed_script now s p v)) (error_key p v) = Inr (Json ?d')"
      unfolding r using g by (simp add: get_object_def update_conv')
    moreover have "map_of ?d' ''retry_count'' = Some (JInt (n + 1))"
      "map_of ?d' ''retry_attempted_at'' = Some (JStr now)"
      "\<forall>f. f \<noteq> ''retry_count'' \<and> f \<noteq> ''retry_attempted_at'' \<longrightarrow> map_of ?d' f = map_of d f"
      by (simp_all add: update_conv')
    ultimately have 4: "\<exists>d'. get_object (snd (retry_failed_script now s p v)) (error_key p v) =
                     Inr (Json d')
                 \<and> map_of d' ''retry_count'' = Some (JInt (n + 1))
                 \<and> map_of d' ''retry_attempted_at'' = Some (JStr now)
                 \<and> (\<forall>f. f \<noteq> ''retry_count'' \<and> f \<noteq> ''retry_attempted_at''
                        \<longrightarrow> map_of d' f = map_of d f)"
      by blast
    have 5: "\<forall>k. k \<noteq> error_key p v \<and> k \<noteq> processed_key p v \<longrightarrow>
                 map_of (objects (snd (retry_failed_script now s p v))) k =
                 map_of (objects s) k"
      unfolding 2 by (simp add: update_conv' delete_conv')
    show ?thesis using 1 2 3 4 5 by blast
  qed
  show ?thesis using a b by blast
qed

theorem retry_respects_budget_witness:
  "s3_client (failed_version_service 3)
   \<and> get_object (failed_version_service 3) (error_key ''demo'' 1) =
       Inr (Json [(''project_name'', JStr ''demo''), (''version'', JInt 1),
               (''status'', JStr ''FAILED''), (''error_message'', JStr ''boom''),
               (''retry_count'', JInt 3), (''failed_at'', JStr ''2025-01-01T00:00:00''),
               (''max_retries'', JInt 3),
               (''next_retry_after'', JStr ''2025-01-01T00:00:00'')])
   \<and> retry_failed_script ''2025-01-02T00:00:00'' (failed_version_service 3) ''demo'' 1 =
       (Failure ''Maximum retry attempts reached'' (Some 3), failed_version_service 3)
   \<and> s3_client (failed_version_service 2)
   \<and> get_object (failed_version_service 2) (error_key ''demo'' 1) =
       Inr (Json [(''project_name'', JStr ''demo''), (''version'', JInt 1),
               (''status'', JStr ''FAILED''), (''error_message'', JStr ''boom''),
               (''retry_count'', JInt 2), (''failed_at'', JStr ''2025-01-01T00:00:00''),
               (''max_retries'', JInt 3),
               (''next_retry_after'', JStr ''2025-01-01T00:00:00'')])
   \<and> fault (failed_version_service 2) DeleteObject = None
   \<and> fault (failed_version_service 2) PutObject = None
   \<and> fst (retry_failed_script ''2025-01-02T00:00:00'' (failed_version_service 2) ''demo'' 1) =
       RetrySuccess ''demo'' 1 3
   \<and> marker_absent
       (snd (retry_failed_script ''2025-01-02T00:00:00'' (failed_version_service 2) ''demo'' 1))
       ''demo'' 1"
proof -
  let ?d = "\<lambda>n. [(''project_name'', JStr ''demo''), (''version'', JInt 1),
               (''status'', JStr ''FAILED''), (''error_message'', JStr ''boom''),
               (''retry_count'', JInt n), (''failed_at'', JStr ''2025-01-01T00:00:00''),
               (''max_retries'', JInt 3),
               (''next_retry_after'', JStr ''2025-01-01T00:00:00'')]"
  have c: "s3_client (failed_version_service 3)" "s3_client (failed_version_service 2)"
    "fault (failed_version_service 2) DeleteObject = None"
    "fault (failed_version_service 2) PutObject = None"
    by (simp_all add: failed_version_service_def example_service_def)
  have g3: "get_object (failed_version_service 3) (error_key ''demo'' 1) = Inr (Json (?d 3))"
    by code_simp
  have g2: "get_object (failed_version_service 2) (error_key ''demo'' 1) = Inr (Json (?d 2))"
    by code_simp
  have m3: "map_of (?d 3) ''retry_count'' = Some (JInt 3) \<or>
            map_of (?d 3) ''retry_count'' = None \<and> (3::int) = 0"
    and m2: "map_of (?d 2) ''retry_count'' = Some (JInt 2) \<or>
            map_of (?d 2) ''retry_count'' = None \<and> (2::int) = 0"
    by simp_all
  have "retry_failed_script ''2025-01-02T00:00:00'' (failed_version_service 3) ''demo'' 1 =
       (Failure ''Maximum retry attempts reached'' (Some 3), failed_version_service 3)"
    using retry_respects_budget[OF c(1) g3 m3, of "''2025-01-02T00:00:00''"] by simp
  moreover have
    "fst (retry_failed_script ''2025-01-02T00:00:00'' (failed_version_service 2) ''demo'' 1) =
       RetrySuccess ''demo'' 1 3
     \<and> marker_absent
       (snd (retry_failed_script ''2025-01-02T00:00:00'' (failed_version_service 2) ''demo'' 1))
       ''demo'' 1"
    using retry_respects_budget[OF c(2) g2 m2, of "''2025-01-02T00:00:00''"] c(3,4) by simp
  ultimately show ?thesis using c g3 g2 by simp
qed

end
